theory Spec2Isabelle
  imports Main "HOL-Library.AList" "HOL-Library.Char_ord" "HOL-Library.List_Lexorder"
begin

section \<open>The product record\<close>

text \<open>
  \<^verbatim>\<open>ProductEntity\<close> of \<^verbatim>\<open>chaincode/smartcontracts.go\<close>: eight Go strings. A Go
  string is a sequence of bytes, so each field is a \<^typ>\<open>string\<close> (a list of 8-bit
  characters). The fields are declared in the order of the Go struct, which is also the
  order in which \<^verbatim>\<open>json.Marshal\<close> writes them.
\<close>

record ProductEntity =
  ProductID :: string
  ProductName :: string
  ProductStatus :: string
  CurrentOwner :: string
  CreatedDate :: string
  UpdatedDate :: string
  ProductCategory :: string
  ProductDescription :: string

text \<open>The zero value of the struct, what \<^verbatim>\<open>var product ProductEntity\<close> declares.\<close>

definition zero_ProductEntity :: ProductEntity where
  "zero_ProductEntity =
     \<lparr>ProductID = [], ProductName = [], ProductStatus = [], CurrentOwner = [],
      CreatedDate = [], UpdatedDate = [], ProductCategory = [], ProductDescription = []\<rparr>"

section \<open>Go's \<^verbatim>\<open>unicode/utf8\<close> and \<^verbatim>\<open>encoding/json\<close>, as far as this struct needs them\<close>

text \<open>
  The contract stores a product as the bytes \<^verbatim>\<open>json.Marshal\<close> returns and reads it back
  with \<^verbatim>\<open>json.Unmarshal\<close>. Both belong to the Go standard library; they are modelled here
  for the one type they are used at, a struct of eight tagged string fields. Bytes are
  read as numbers with \<open>byte\<close>.
\<close>

abbreviation byte :: "char \<Rightarrow> nat" where
  "byte c \<equiv> of_char c"

definition RuneError :: nat where
  "RuneError = 0xFFFD"

text \<open>
  \<^verbatim>\<open>utf8.DecodeRune\<close>: the rune at the head of the bytes and its width. An invalid or
  truncated encoding gives \<open>(RuneError, 1)\<close>, no bytes give \<open>(RuneError, 0)\<close>. The second
  byte is checked against the range the first byte accepts (\<^verbatim>\<open>acceptRanges\<close>), which
  excludes over-long forms, surrogates and runes beyond U+10FFFF.
\<close>

definition accept_lo :: "nat \<Rightarrow> nat" where
  "accept_lo p0 = (if p0 = 0xE0 then 0xA0 else if p0 = 0xF0 then 0x90 else 0x80)"

definition accept_hi :: "nat \<Rightarrow> nat" where
  "accept_hi p0 = (if p0 = 0xED then 0x9F else if p0 = 0xF4 then 0x8F else 0xBF)"

fun DecodeRune :: "string \<Rightarrow> nat \<times> nat" where
  "DecodeRune [] = (RuneError, 0)"
| "DecodeRune (c # cs) =
     (let p0 = byte c in
      if p0 < 0x80 then (p0, 1)
      else if p0 < 0xC2 \<or> 0xF4 < p0 then (RuneError, 1)
      else
        let sz = (if p0 < 0xE0 then 2 else if p0 < 0xF0 then 3 else 4 :: nat) in
        if Suc (length cs) < sz then (RuneError, 1)
        else
          let b1 = byte (cs ! 0) in
          if b1 < accept_lo p0 \<or> accept_hi p0 < b1 then (RuneError, 1)
          else if sz \<le> 2 then ((p0 mod 32) * 64 + b1 mod 64, 2)
          else
            let b2 = byte (cs ! 1) in
            if b2 < 0x80 \<or> 0xBF < b2 then (RuneError, 1)
            else if sz \<le> 3 then ((p0 mod 16) * 4096 + (b1 mod 64) * 64 + b2 mod 64, 3)
            else
              let b3 = byte (cs ! 2) in
              if b3 < 0x80 \<or> 0xBF < b3 then (RuneError, 1)
              else ((p0 mod 8) * 262144 + (b1 mod 64) * 4096 + (b2 mod 64) * 64 + b3 mod 64, 4))"

text \<open>
  \<^verbatim>\<open>utf8.EncodeRune\<close>: surrogates and runes beyond U+10FFFF are written as U+FFFD.
\<close>

definition EncodeRune :: "nat \<Rightarrow> string" where
  "EncodeRune r =
     (if r \<le> 0x7F then [char_of r]
      else if r \<le> 0x7FF then [char_of (0xC0 + r div 64), char_of (0x80 + r mod 64)]
      else if 0x10FFFF < r \<or> (0xD800 \<le> r \<and> r \<le> 0xDFFF) then [CHR 0xEF, CHR 0xBF, CHR 0xBD]
      else if r \<le> 0xFFFF then
        [char_of (0xE0 + r div 4096), char_of (0x80 + (r div 64) mod 64), char_of (0x80 + r mod 64)]
      else
        [char_of (0xF0 + r div 262144), char_of (0x80 + (r div 4096) mod 64),
         char_of (0x80 + (r div 64) mod 64), char_of (0x80 + r mod 64)])"

text \<open>\<^verbatim>\<open>utf8.ValidString\<close>: every rune of the string decodes.\<close>

function ValidString :: "string \<Rightarrow> bool" where
  "ValidString [] = True"
| "ValidString (c # cs) =
     (case DecodeRune (c # cs) of
        (r, sz) \<Rightarrow> \<not> (r = RuneError \<and> sz = 1) \<and> ValidString (drop (sz - 1) cs))"
  by pat_completeness auto
termination
  by (relation "measure length") auto

text \<open>
  What the encoder and the decoder both do to a string that is not valid UTF-8
  ("coerced to valid UTF-8" in the package documentation): every byte that starts no valid
  encoding becomes U+FFFD, three bytes.
\<close>

function coerce_utf8 :: "string \<Rightarrow> string" where
  "coerce_utf8 [] = []"
| "coerce_utf8 (c # cs) =
     (case DecodeRune (c # cs) of
        (r, sz) \<Rightarrow>
          if r = RuneError \<and> sz = 1 then EncodeRune RuneError @ coerce_utf8 cs
          else take sz (c # cs) @ coerce_utf8 (drop (sz - 1) cs))"
  by pat_completeness auto
termination
  by (relation "measure length") auto

subsection \<open>Encoding\<close>

text \<open>
  \<^verbatim>\<open>appendString\<close> of \<^verbatim>\<open>encoding/json\<close> with HTML escaping on, as \<^verbatim>\<open>json.Marshal\<close>
  calls it, without the two enclosing quotes. The bytes of \<^verbatim>\<open>htmlSafeSet\<close> are copied;
  the quote, the backslash and the control characters are escaped, as are \<^verbatim>\<open><\<close>,
  \<^verbatim>\<open>>\<close> and \<^verbatim>\<open>&\<close>; a byte that starts no valid encoding is written as the escape of
  U+FFFD; U+2028 and U+2029 are escaped; every other rune is copied.
\<close>

definition hex :: "nat \<Rightarrow> char" where
  "hex n = ''0123456789abcdef'' ! n"

definition htmlSafe :: "char \<Rightarrow> bool" where
  "htmlSafe c \<longleftrightarrow>
     0x20 \<le> byte c \<and> byte c < 0x80 \<and>
     c \<notin> {CHR 0x22, CHR 0x5C, CHR ''<'', CHR ''>'', CHR ''&''}"

definition escape_ascii :: "char \<Rightarrow> string" where
  "escape_ascii c =
     (if c = CHR 0x5C \<or> c = CHR 0x22 then [CHR 0x5C, c]
      else if c = CHR 0x08 then [CHR 0x5C, CHR ''b'']
      else if c = CHR 0x0C then [CHR 0x5C, CHR ''f'']
      else if c = CHR 0x0A then [CHR 0x5C, CHR ''n'']
      else if c = CHR 0x0D then [CHR 0x5C, CHR ''r'']
      else if c = CHR 0x09 then [CHR 0x5C, CHR ''t'']
      else [CHR 0x5C, CHR ''u'', CHR ''0'', CHR ''0'', hex (byte c div 16), hex (byte c mod 16)])"

function appendString :: "string \<Rightarrow> string" where
  "appendString [] = []"
| "appendString (c # cs) =
     (if byte c < 0x80 then
        (if htmlSafe c then c # appendString cs
         else escape_ascii c @ appendString cs)
      else
        (case DecodeRune (c # cs) of
           (r, sz) \<Rightarrow>
             if r = RuneError \<and> sz = 1 then
               [CHR 0x5C, CHR ''u'', CHR ''f'', CHR ''f'', CHR ''f'', CHR ''d''] @ appendString cs
             else if r = 0x2028 \<or> r = 0x2029 then
               [CHR 0x5C, CHR ''u'', CHR ''2'', CHR ''0'', CHR ''2'', hex (r mod 16)]
                 @ appendString (drop (sz - 1) cs)
             else take sz (c # cs) @ appendString (drop (sz - 1) cs)))"
  by pat_completeness auto
termination
  by (relation "measure length") auto

definition quote :: "string \<Rightarrow> string" where
  "quote s = [CHR 0x22] @ appendString s @ [CHR 0x22]"

datatype json_error = SyntaxError | UnmarshalTypeError

text \<open>
  \<^verbatim>\<open>json.Marshal\<close> of a \<^verbatim>\<open>ProductEntity\<close>: one object, the fields in the order of the
  struct under the names of their tags, no white space. It cannot fail for a struct of
  strings; the result keeps the error of its Go signature.
\<close>

definition field_text :: "string \<Rightarrow> string \<Rightarrow> string" where
  "field_text name v = quote name @ '':'' @ quote v"

definition Marshal :: "ProductEntity \<Rightarrow> json_error + string" where
  "Marshal p = Inr
     (''{'' @ field_text ''product_id'' (ProductID p) @
      '','' @ field_text ''product_name'' (ProductName p) @
      '','' @ field_text ''product_status'' (ProductStatus p) @
      '','' @ field_text ''current_owner'' (CurrentOwner p) @
      '','' @ field_text ''created_date'' (CreatedDate p) @
      '','' @ field_text ''updated_date'' (UpdatedDate p) @
      '','' @ field_text ''product_category'' (ProductCategory p) @
      '','' @ field_text ''product_description'' (ProductDescription p) @ ''}'')"

subsection \<open>Decoding\<close>

text \<open>
  \<^verbatim>\<open>getu4\<close>: the value of the four hexadecimal digits of a \<^verbatim>\<open>\uXXXX\<close> escape at the
  head of the bytes, if there is one.
\<close>

definition hexval :: "char \<Rightarrow> nat option" where
  "hexval c =
     (let b = byte c in
      if 0x30 \<le> b \<and> b \<le> 0x39 then Some (b - 0x30)
      else if 0x61 \<le> b \<and> b \<le> 0x66 then Some (b - 0x61 + 10)
      else if 0x41 \<le> b \<and> b \<le> 0x46 then Some (b - 0x41 + 10)
      else None)"

fun getu4 :: "string \<Rightarrow> nat option" where
  "getu4 (bs # u # a # b # c # d # _) =
     (if bs = CHR 0x5C \<and> u = CHR ''u'' then
        (case (hexval a, hexval b, hexval c, hexval d) of
           (Some x, Some y, Some z, Some w) \<Rightarrow> Some (((x * 16 + y) * 16 + z) * 16 + w)
         | _ \<Rightarrow> None)
      else None)"
| "getu4 _ = None"

text \<open>\<^verbatim>\<open>utf16.IsSurrogate\<close> and \<^verbatim>\<open>utf16.DecodeRune\<close>.\<close>

definition IsSurrogate :: "nat \<Rightarrow> bool" where
  "IsSurrogate r \<longleftrightarrow> 0xD800 \<le> r \<and> r < 0xE000"

definition utf16_DecodeRune :: "nat \<Rightarrow> nat \<Rightarrow> nat" where
  "utf16_DecodeRune r1 r2 =
     (if 0xD800 \<le> r1 \<and> r1 < 0xDC00 \<and> 0xDC00 \<le> r2 \<and> r2 < 0xE000
      then (r1 - 0xD800) * 1024 + (r2 - 0xDC00) + 0x10000
      else RuneError)"

definition emit :: "string \<Rightarrow> (string \<times> string) option \<Rightarrow> (string \<times> string) option" where
  "emit out res = (case res of None \<Rightarrow> None | Some (s, rest) \<Rightarrow> Some (out @ s, rest))"

definition simple_escape :: "char \<Rightarrow> char option" where
  "simple_escape e =
     (if e = CHR 0x22 \<or> e = CHR 0x5C \<or> e = CHR ''/'' then Some e
      else if e = CHR ''b'' then Some (CHR 0x08)
      else if e = CHR ''f'' then Some (CHR 0x0C)
      else if e = CHR ''n'' then Some (CHR 0x0A)
      else if e = CHR ''r'' then Some (CHR 0x0D)
      else if e = CHR ''t'' then Some (CHR 0x09)
      else None)"

text \<open>
  A string literal, read from the byte after its opening quote: the scanner's check of
  the literal (no control character, only the escapes of JSON) together with
  \<^verbatim>\<open>unquote\<close>, which resolves the escapes, joins a pair of surrogate escapes, replaces a
  lone surrogate by U+FFFD and re-encodes every rune that is not escaped. The result is
  the text of the literal and the bytes after its closing quote; \<open>None\<close> when the scanner
  rejects the literal.
\<close>

function unquote :: "string \<Rightarrow> (string \<times> string) option" where
  "unquote [] = None"
| "unquote (c # cs) =
     (if c = CHR 0x22 then Some ([], cs)
      else if c = CHR 0x5C then
        (case cs of
           [] \<Rightarrow> None
         | e # r \<Rightarrow>
             if e = CHR ''u'' then
               (case getu4 (c # cs) of
                  None \<Rightarrow> None
                | Some rr \<Rightarrow>
                    if IsSurrogate rr then
                      (case getu4 (drop 4 r) of
                         None \<Rightarrow> emit (EncodeRune RuneError) (unquote (drop 4 r))
                       | Some rr1 \<Rightarrow>
                           if utf16_DecodeRune rr rr1 \<noteq> RuneError
                           then emit (EncodeRune (utf16_DecodeRune rr rr1)) (unquote (drop 10 r))
                           else emit (EncodeRune RuneError) (unquote (drop 4 r)))
                    else emit (EncodeRune rr) (unquote (drop 4 r)))
             else
               (case simple_escape e of
                  None \<Rightarrow> None
                | Some ch \<Rightarrow> emit [ch] (unquote r)))
      else if byte c < 0x20 then None
      else if byte c < 0x80 then emit [c] (unquote cs)
      else
        (case DecodeRune (c # cs) of
           (rr, sz) \<Rightarrow> emit (EncodeRune rr) (unquote (drop (sz - 1) cs))))"
  by pat_completeness auto
termination
  by (relation "measure length") auto

text \<open>
  The tokens of a JSON text. The scanner of \<^verbatim>\<open>encoding/json\<close> works byte by byte; here
  the bytes are first cut into tokens and the grammar is checked on the tokens, which
  accepts the same texts.
\<close>

datatype token =
  LBrace | RBrace | LBrack | RBrack | Colon | Comma
  | TString string | TNumber | TTrue | TFalse | TNull

definition digit :: "char \<Rightarrow> bool" where
  "digit c \<longleftrightarrow> 0x30 \<le> byte c \<and> byte c \<le> 0x39"

definition digits1 :: "string \<Rightarrow> string option" where
  "digits1 s = (case s of [] \<Rightarrow> None | c # r \<Rightarrow> if digit c then Some (dropWhile digit r) else None)"

definition scan_frac :: "string \<Rightarrow> string option" where
  "scan_frac s = (case s of [] \<Rightarrow> Some s | c # r \<Rightarrow> if c = CHR ''.'' then digits1 r else Some s)"

definition scan_exp :: "string \<Rightarrow> string option" where
  "scan_exp s =
     (case s of
        [] \<Rightarrow> Some s
      | c # r \<Rightarrow>
          if c = CHR ''e'' \<or> c = CHR ''E'' then
            (case r of
               [] \<Rightarrow> None
             | d # r' \<Rightarrow> if d = CHR ''+'' \<or> d = CHR ''-'' then digits1 r' else digits1 r)
          else Some s)"

text \<open>
  A number: an optional minus, \<^verbatim>\<open>0\<close> or a digit string without leading zero, an
  optional fraction, an optional exponent. The result is what follows the number.
\<close>

definition scan_number :: "string \<Rightarrow> string option" where
  "scan_number s =
     (case (case s of [] \<Rightarrow> s | c # r \<Rightarrow> if c = CHR ''-'' then r else s) of
        [] \<Rightarrow> None
      | c # r \<Rightarrow>
          if \<not> digit c then None
          else
            (case scan_frac (if c = CHR ''0'' then r else dropWhile digit r) of
               None \<Rightarrow> None
             | Some s3 \<Rightarrow> scan_exp s3))"

definition tok :: "token \<Rightarrow> token list option \<Rightarrow> token list option" where
  "tok t res = (case res of None \<Rightarrow> None | Some ts \<Rightarrow> Some (t # ts))"

definition whitespace :: "char \<Rightarrow> bool" where
  "whitespace c \<longleftrightarrow> c = CHR '' '' \<or> c = CHR 0x09 \<or> c = CHR 0x0D \<or> c = CHR 0x0A"

declare DecodeRune.simps [simp del]

lemma emit_Some:
  "emit out res = Some (s, rest) \<longleftrightarrow> (\<exists>s'. res = Some (s', rest) \<and> s = out @ s')"
  by (auto simp: emit_def split: option.splits)

lemma unquote_shorter_aux:
  "length cs \<le> n \<Longrightarrow> unquote cs = Some (s, rest) \<Longrightarrow> length rest < length cs"
proof (induction n arbitrary: cs s)
  case 0
  then show ?case by simp
next
  case (Suc n)
  have H: "length rest \<le> length ys"
    if "unquote (drop k ys) = Some (s', rest)" "length ys \<le> n" for k ys s'
  proof -
    have "length (drop k ys) \<le> n" using that(2) by simp
    from Suc.IH [OF this that(1)] show ?thesis by simp
  qed
  have H0: "length rest \<le> length ys" if "unquote ys = Some (s', rest)" "length ys \<le> n" for ys s'
    using H [of 0 ys s'] that by simp
  show ?case
  proof (cases cs)
    case Nil
    with Suc.prems show ?thesis by simp
  next
    case (Cons c cs')
    have n: "length cs' \<le> n" using Suc.prems(1) Cons by simp
    from Suc.prems(2) n show ?thesis
      unfolding Cons
      by (subst (asm) unquote.simps)
         (auto simp: emit_Some less_Suc_eq_le split: if_splits list.splits option.splits prod.splits
               dest!: H H0)
  qed
qed

lemma unquote_shorter: "unquote cs = Some (s, rest) \<Longrightarrow> length rest < length cs"
  using unquote_shorter_aux [of cs "length cs"] by simp

lemma digits1_shorter: "digits1 s = Some rest \<Longrightarrow> length rest < length s"
  by (auto simp: digits1_def less_Suc_eq_le length_dropWhile_le split: list.splits if_splits)

lemma scan_frac_shorter: "scan_frac s = Some rest \<Longrightarrow> length rest \<le> length s"
  by (auto simp: scan_frac_def split: list.splits if_splits dest!: digits1_shorter)

lemma scan_exp_shorter: "scan_exp s = Some rest \<Longrightarrow> length rest \<le> length s"
  by (auto simp: scan_exp_def split: list.splits if_splits dest!: digits1_shorter)

lemma scan_number_shorter: "scan_number s = Some rest \<Longrightarrow> length rest < length s"
proof -
  assume a: "scan_number s = Some rest"
  obtain s1 where s1: "s1 = (case s of [] \<Rightarrow> s | c # r \<Rightarrow> if c = CHR ''-'' then r else s)" by simp
  have l1: "length s1 \<le> length s" using s1 by (auto split: list.splits)
  from a s1 obtain c r s2 s3 where c: "s1 = c # r"
    and s2: "s2 = (if c = CHR ''0'' then r else dropWhile digit r)"
    and f: "scan_frac s2 = Some s3" and e: "scan_exp s3 = Some rest"
    unfolding scan_number_def by (auto split: list.splits if_splits option.splits)
  have "length s2 \<le> length r" using s2 by (simp add: length_dropWhile_le)
  with scan_frac_shorter [OF f] scan_exp_shorter [OF e] c l1 show ?thesis by simp
qed

function lex :: "string \<Rightarrow> token list option" where
  "lex [] = Some []"
| "lex (c # cs) =
     (if whitespace c then lex cs
      else if c = CHR ''{'' then tok LBrace (lex cs)
      else if c = CHR ''}'' then tok RBrace (lex cs)
      else if c = CHR ''['' then tok LBrack (lex cs)
      else if c = CHR '']'' then tok RBrack (lex cs)
      else if c = CHR '':'' then tok Colon (lex cs)
      else if c = CHR '','' then tok Comma (lex cs)
      else if c = CHR 0x22 then
        (case unquote cs of
           None \<Rightarrow> None
         | Some (s, rest) \<Rightarrow> tok (TString s) (lex rest))
      else if c = CHR ''-'' \<or> digit c then
        (case scan_number (c # cs) of
           None \<Rightarrow> None
         | Some rest \<Rightarrow> tok TNumber (lex rest))
      else if take 4 (c # cs) = ''true'' then tok TTrue (lex (drop 3 cs))
      else if take 5 (c # cs) = ''false'' then tok TFalse (lex (drop 4 cs))
      else if take 4 (c # cs) = ''null'' then tok TNull (lex (drop 3 cs))
      else None)"
  by pat_completeness auto
termination
  apply (relation "measure length")
               apply simp_all
   apply (metis unquote_shorter less_SucI)
  apply (drule scan_number_shorter, simp)
  done

text \<open>
  The grammar, as the scanner's automaton: the stack holds the open brackets
  (\<open>True\<close> for an object), at most \<^verbatim>\<open>maxNestingDepth\<close> of them.
\<close>

datatype pstate =
  BeginValue | BeginValueOrEmpty | BeginStringOrEmpty | BeginString | ObjectKey | EndValue

definition maxNestingDepth :: nat where
  "maxNestingDepth = 10000"

definition begin_value :: "bool list \<Rightarrow> token \<Rightarrow> (pstate \<times> bool list) option" where
  "begin_value stk t =
     (case t of
        LBrace \<Rightarrow>
          if length stk < maxNestingDepth then Some (BeginStringOrEmpty, True # stk) else None
      | LBrack \<Rightarrow>
          if length stk < maxNestingDepth then Some (BeginValueOrEmpty, False # stk) else None
      | TString _ \<Rightarrow> Some (EndValue, stk)
      | TNumber \<Rightarrow> Some (EndValue, stk)
      | TTrue \<Rightarrow> Some (EndValue, stk)
      | TFalse \<Rightarrow> Some (EndValue, stk)
      | TNull \<Rightarrow> Some (EndValue, stk)
      | _ \<Rightarrow> None)"

definition begin_string :: "bool list \<Rightarrow> token \<Rightarrow> (pstate \<times> bool list) option" where
  "begin_string stk t = (case t of TString _ \<Rightarrow> Some (ObjectKey, stk) | _ \<Rightarrow> None)"

fun step :: "pstate \<times> bool list \<Rightarrow> token \<Rightarrow> (pstate \<times> bool list) option" where
  "step (BeginValue, stk) t = begin_value stk t"
| "step (BeginValueOrEmpty, stk) t =
     (if t = RBrack then Some (EndValue, tl stk) else begin_value stk t)"
| "step (BeginStringOrEmpty, stk) t =
     (if t = RBrace then Some (EndValue, tl stk) else begin_string stk t)"
| "step (BeginString, stk) t = begin_string stk t"
| "step (ObjectKey, stk) t = (if t = Colon then Some (BeginValue, stk) else None)"
| "step (EndValue, stk) t =
     (case stk of
        [] \<Rightarrow> None
      | True # stk' \<Rightarrow>
          if t = Comma then Some (BeginString, stk)
          else if t = RBrace then Some (EndValue, stk')
          else None
      | False # stk' \<Rightarrow>
          if t = Comma then Some (BeginValue, stk)
          else if t = RBrack then Some (EndValue, stk')
          else None)"

fun steps :: "pstate \<times> bool list \<Rightarrow> token list \<Rightarrow> (pstate \<times> bool list) option" where
  "steps s [] = Some s"
| "steps s (t # ts) = (case step s t of None \<Rightarrow> None | Some s' \<Rightarrow> steps s' ts)"

definition checkValid :: "token list \<Rightarrow> bool" where
  "checkValid ts \<longleftrightarrow> steps (BeginValue, []) ts = Some (EndValue, [])"

text \<open>
  The fields of the struct by the names of their tags. A key of the text selects the
  field whose name it equals, or else the field whose name it equals when letters are
  folded: ASCII letters to upper case, and the two runes that fold to an ASCII letter,
  U+017F to S and U+212A to K (\<^verbatim>\<open>foldName\<close>).
\<close>

datatype field =
  F_product_id | F_product_name | F_product_status | F_current_owner
  | F_created_date | F_updated_date | F_product_category | F_product_description

definition struct_fields :: "(string \<times> field) list" where
  "struct_fields =
     [(''product_id'', F_product_id), (''product_name'', F_product_name),
      (''product_status'', F_product_status), (''current_owner'', F_current_owner),
      (''created_date'', F_created_date), (''updated_date'', F_updated_date),
      (''product_category'', F_product_category),
      (''product_description'', F_product_description)]"

fun set_field :: "field \<Rightarrow> string \<Rightarrow> ProductEntity \<Rightarrow> ProductEntity" where
  "set_field F_product_id s p = p\<lparr>ProductID := s\<rparr>"
| "set_field F_product_name s p = p\<lparr>ProductName := s\<rparr>"
| "set_field F_product_status s p = p\<lparr>ProductStatus := s\<rparr>"
| "set_field F_current_owner s p = p\<lparr>CurrentOwner := s\<rparr>"
| "set_field F_created_date s p = p\<lparr>CreatedDate := s\<rparr>"
| "set_field F_updated_date s p = p\<lparr>UpdatedDate := s\<rparr>"
| "set_field F_product_category s p = p\<lparr>ProductCategory := s\<rparr>"
| "set_field F_product_description s p = p\<lparr>ProductDescription := s\<rparr>"

fun foldName :: "string \<Rightarrow> string" where
  "foldName [] = []"
| "foldName (c # cs) =
     (if 0x61 \<le> byte c \<and> byte c \<le> 0x7A then char_of (byte c - 0x20) # foldName cs
      else if take 2 (c # cs) = [CHR 0xC5, CHR 0xBF] then CHR ''S'' # foldName (drop 1 cs)
      else if take 3 (c # cs) = [CHR 0xE2, CHR 0x84, CHR 0xAA] then CHR ''K'' # foldName (drop 2 cs)
      else c # foldName cs)"

definition find_field :: "string \<Rightarrow> field option" where
  "find_field key =
     (case map_of struct_fields key of
        Some f \<Rightarrow> Some f
      | None \<Rightarrow> map_of (map (\<lambda>(n, f). (foldName n, f)) struct_fields) (foldName key))"

text \<open>
  Skipping one value of a checked text: \<open>skip d ts\<close> drops tokens until the \<open>d\<close> brackets
  that are open have been closed and, when none is open, one value has been passed.
\<close>

fun skip :: "nat \<Rightarrow> token list \<Rightarrow> token list" where
  "skip d [] = []"
| "skip d (t # ts) =
     (if t = LBrace \<or> t = LBrack then skip (Suc d) ts
      else if t = RBrace \<or> t = RBrack then (if d \<le> 1 then ts else skip (d - 1) ts)
      else if d = 0 then ts
      else skip d ts)"

lemma skip_shorter: "length (skip d ts) \<le> length ts"
  by (induction d ts rule: skip.induct) auto

definition after_value :: "token list \<Rightarrow> token list" where
  "after_value ts = (case ts of Comma # r \<Rightarrow> r | _ \<Rightarrow> ts)"

lemma after_value_shorter: "length (after_value ts) \<le> length ts"
  by (auto simp: after_value_def split: list.splits token.splits)

definition first_error :: "json_error option \<Rightarrow> json_error \<Rightarrow> json_error option" where
  "first_error saved e = (case saved of None \<Rightarrow> Some e | Some e' \<Rightarrow> Some e')"

text \<open>
  The members of an object, decoded into the struct (\<^verbatim>\<open>d.object\<close>): a string value
  is stored in the field its key selects, \<^verbatim>\<open>null\<close> leaves the field as it is, any
  other value is of the wrong type for a string field: the first such error is kept
  (\<^verbatim>\<open>d.saveError\<close>) and decoding goes on. The value of a key that selects no field
  is skipped.
\<close>

lemma after_value_skip_shorter:
  "length (after_value (skip d ts)) \<le> length ts"
  using after_value_shorter [of "skip d ts"] skip_shorter [of d ts] by simp

function object ::
  "token list \<Rightarrow> ProductEntity \<times> json_error option \<Rightarrow> ProductEntity \<times> json_error option"
  where
  "object ts (p, err) =
     (case ts of
        TString key # Colon # v # rest \<Rightarrow>
          (case find_field key of
             None \<Rightarrow> object (after_value (skip 0 (v # rest))) (p, err)
           | Some f \<Rightarrow>
               (case v of
                  TString s \<Rightarrow> object (after_value rest) (set_field f s p, err)
                | TNull \<Rightarrow> object (after_value rest) (p, err)
                | _ \<Rightarrow>
                    object (after_value (skip 0 (v # rest)))
                      (p, first_error err UnmarshalTypeError)))
      | _ \<Rightarrow> (p, err))"
  by pat_completeness auto
termination
proof -
  have l1: "length (after_value rest) < Suc (Suc (Suc (length rest)))" for rest
    using after_value_shorter [of rest] by simp
  have l2: "length (after_value (skip d (v # rest))) < Suc (Suc (Suc (length rest)))" for d v rest
    using after_value_skip_shorter [of d "v # rest"] by simp
  show ?thesis
    by (relation "measure (\<lambda>(ts, acc). length ts)") (simp_all del: skip.simps add: l1 l2)
qed

text \<open>
  \<^verbatim>\<open>json.Unmarshal\<close> into a \<^verbatim>\<open>ProductEntity\<close>: the whole text is checked first and a
  text that is not JSON leaves the struct as it was (\<^verbatim>\<open>SyntaxError\<close>); an object fills
  the fields, \<^verbatim>\<open>null\<close> changes nothing, any other value is of the wrong type. The result
  is the struct after the call and the error returned, if any.
\<close>

definition Unmarshal :: "string \<Rightarrow> ProductEntity \<Rightarrow> ProductEntity \<times> json_error option" where
  "Unmarshal data v =
     (case lex data of
        None \<Rightarrow> (v, Some SyntaxError)
      | Some ts \<Rightarrow>
          if \<not> checkValid ts then (v, Some SyntaxError)
          else
            (case ts of
               LBrace # ms \<Rightarrow> object ms (v, None)
             | TNull # _ \<Rightarrow> (v, None)
             | _ \<Rightarrow> (v, Some UnmarshalTypeError)))"

section \<open>The transaction context\<close>

text \<open>
  The contract reaches the ledger only through the stub of its transaction context:
  \<^verbatim>\<open>GetState\<close>, \<^verbatim>\<open>PutState\<close>, \<^verbatim>\<open>GetStateByRange\<close> and \<^verbatim>\<open>GetTxTimestamp\<close>. The stub is
  an interface of the Fabric platform; the context below is an in-memory one: the world
  state as a list of key and value pairs, read through \<^const>\<open>map_of\<close> and written with
  \<^const>\<open>AList.update\<close>, and for every call of the stub the error it returns, if any.
  \<open>rfc3339\<close> is \<^verbatim>\<open>time.Unix(seconds, nanos).Format(time.RFC3339)\<close>, which renders the
  instant in the zone of the host.
\<close>

record Timestamp =
  Seconds :: int
  Nanos :: int

record ctx =
  state :: "(string \<times> string) list"
  get_fault :: "string \<Rightarrow> string option"
  put_fault :: "string \<Rightarrow> string option"
  range_fault :: "string option"
  next_fault :: "string \<Rightarrow> string option"
  tx_timestamp :: "string + Timestamp"
  rfc3339 :: "Timestamp \<Rightarrow> string"

definition GetState :: "ctx \<Rightarrow> string \<Rightarrow> string + string option" where
  "GetState c key =
     (case get_fault c key of
        Some e \<Rightarrow> Inl e
      | None \<Rightarrow> Inr (map_of (state c) key))"

definition PutState :: "ctx \<Rightarrow> string \<Rightarrow> string \<Rightarrow> string option \<times> ctx" where
  "PutState c key v =
     (case put_fault c key of
        Some e \<Rightarrow> (Some e, c)
      | None \<Rightarrow> (None, c\<lparr>state := AList.update key v (state c)\<rparr>))"


definition GetTxTimestamp :: "ctx \<Rightarrow> string + Timestamp" where
  "GetTxTimestamp c = tx_timestamp c"

section \<open>The contract\<close>

text \<open>
  The errors of the contract, one constructor for each place of the source that makes
  one. Seven are \<^verbatim>\<open>fmt.Errorf\<close> messages, with the product ID or the message of the
  stub's error they embed: "product with ID ... already exists" (\<^verbatim>\<open>RegisterProduct\<close>),
  "... does not exist" (\<^verbatim>\<open>ModifyProduct\<close>), "... not found" (\<^verbatim>\<open>RetrieveProduct\<close>),
  "unable to retrieve transaction timestamp", "error retrieving product"
  (\<^verbatim>\<open>ModifyProduct\<close>), "error fetching product details" (\<^verbatim>\<open>RetrieveProduct\<close>) and
  "error checking product existence". The last two constructors are the errors of the
  stub and of \<^verbatim>\<open>encoding/json\<close> that the contract returns as they are.
\<close>

datatype error =
  AlreadyExistsErr string
  | DoesNotExistErr string
  | NotFoundErr string
  | TimestampErr string
  | RetrievingErr string
  | FetchingErr string
  | CheckingErr string
  | StubErr string
  | JsonErr json_error

text \<open>
  The five kinds of error of the specification (section 7), and the kind of each error
  of the contract.
\<close>

datatype error_kind =
  AlreadyExists | NotFound | TimestampUnavailable | StoreUnavailable | SerializationFailure

fun kind :: "error \<Rightarrow> error_kind" where
  "kind (AlreadyExistsErr _) = AlreadyExists"
| "kind (DoesNotExistErr _) = NotFound"
| "kind (NotFoundErr _) = NotFound"
| "kind (TimestampErr _) = TimestampUnavailable"
| "kind (RetrievingErr _) = StoreUnavailable"
| "kind (FetchingErr _) = StoreUnavailable"
| "kind (CheckingErr _) = StoreUnavailable"
| "kind (StubErr _) = StoreUnavailable"
| "kind (JsonErr _) = SerializationFailure"

definition fetchTransactionTimestamp :: "ctx \<Rightarrow> error + string" where
  "fetchTransactionTimestamp c =
     (case GetTxTimestamp c of
        Inl e \<Rightarrow> Inl (TimestampErr e)
      | Inr timestamp \<Rightarrow> Inr (rfc3339 c timestamp))"

definition saveProduct :: "ctx \<Rightarrow> ProductEntity \<Rightarrow> error option \<times> ctx" where
  "saveProduct c product =
     (case Marshal product of
        Inl e \<Rightarrow> (Some (JsonErr e), c)
      | Inr productBytes \<Rightarrow>
          (case PutState c (ProductID product) productBytes of
             (None, c') \<Rightarrow> (None, c')
           | (Some e, c') \<Rightarrow> (Some (StubErr e), c')))"

definition CheckProductExistence :: "ctx \<Rightarrow> string \<Rightarrow> error + bool" where
  "CheckProductExistence c pid =
     (case GetState c pid of
        Inl e \<Rightarrow> Inl (CheckingErr e)
      | Inr productBytes \<Rightarrow> Inr (productBytes \<noteq> None))"

definition initialProducts :: "string \<Rightarrow> ProductEntity list" where
  "initialProducts timeNow =
     [\<lparr>ProductID = ''prod1'', ProductName = ''Gaming Laptop'', ProductStatus = ''Manufactured'',
       CurrentOwner = ''TechCorp'', CreatedDate = timeNow, UpdatedDate = timeNow,
       ProductCategory = ''Electronics'',
       ProductDescription = ''A high-performance gaming laptop''\<rparr>,
      \<lparr>ProductID = ''prod2'', ProductName = ''5G Smartphone'', ProductStatus = ''Manufactured'',
       CurrentOwner = ''MobileCo'', CreatedDate = timeNow, UpdatedDate = timeNow,
       ProductCategory = ''Electronics'',
       ProductDescription = ''Latest 5G-enabled smartphone''\<rparr>]"

fun saveProducts :: "ctx \<Rightarrow> ProductEntity list \<Rightarrow> error option \<times> ctx" where
  "saveProducts c [] = (None, c)"
| "saveProducts c (product # rest) =
     (case saveProduct c product of
        (Some e, c') \<Rightarrow> (Some e, c')
      | (None, c') \<Rightarrow> saveProducts c' rest)"

definition InitializeLedger :: "ctx \<Rightarrow> error option \<times> ctx" where
  "InitializeLedger c =
     (case fetchTransactionTimestamp c of
        Inl e \<Rightarrow> (Some e, c)
      | Inr timeNow \<Rightarrow> saveProducts c (initialProducts timeNow))"

definition RegisterProduct ::
  "ctx \<Rightarrow> string \<Rightarrow> string \<Rightarrow> string \<Rightarrow> string \<Rightarrow> string \<Rightarrow> error option \<times> ctx" where
  "RegisterProduct c pid name owner description category =
     (case CheckProductExistence c pid of
        Inl e \<Rightarrow> (Some e, c)
      | Inr exists \<Rightarrow>
          if exists then (Some (AlreadyExistsErr pid), c)
          else
            (case fetchTransactionTimestamp c of
               Inl e \<Rightarrow> (Some e, c)
             | Inr timeNow \<Rightarrow>
                 saveProduct c
                   \<lparr>ProductID = pid, ProductName = name, ProductStatus = ''Manufactured'',
                    CurrentOwner = owner, CreatedDate = timeNow, UpdatedDate = timeNow,
                    ProductCategory = category, ProductDescription = description\<rparr>))"

text \<open>
  The four assignments of \<^verbatim>\<open>ModifyProduct\<close>, each under its test that the argument is
  not the empty string.
\<close>

definition merge ::
  "ProductEntity \<Rightarrow> string \<Rightarrow> string \<Rightarrow> string \<Rightarrow> string \<Rightarrow> ProductEntity" where
  "merge product status owner description category =
     (let product = (if status \<noteq> [] then product\<lparr>ProductStatus := status\<rparr> else product);
          product = (if owner \<noteq> [] then product\<lparr>CurrentOwner := owner\<rparr> else product);
          product =
            (if description \<noteq> [] then product\<lparr>ProductDescription := description\<rparr>
             else product);
          product = (if category \<noteq> [] then product\<lparr>ProductCategory := category\<rparr> else product)
      in product)"

text \<open>
  \<^verbatim>\<open>ModifyProduct\<close> calls \<^verbatim>\<open>json.Unmarshal\<close> as a statement: the error it returns is
  dropped and the struct is used as the call left it.
\<close>

definition ModifyProduct ::
  "ctx \<Rightarrow> string \<Rightarrow> string \<Rightarrow> string \<Rightarrow> string \<Rightarrow> string \<Rightarrow> error option \<times> ctx" where
  "ModifyProduct c pid status owner description category =
     (case GetState c pid of
        Inl e \<Rightarrow> (Some (RetrievingErr e), c)
      | Inr None \<Rightarrow> (Some (DoesNotExistErr pid), c)
      | Inr (Some productBytes) \<Rightarrow>
          (let product = fst (Unmarshal productBytes zero_ProductEntity);
               product = merge product status owner description category
           in case fetchTransactionTimestamp c of
                Inl e \<Rightarrow> (Some e, c)
              | Inr t \<Rightarrow> saveProduct c (product\<lparr>UpdatedDate := t\<rparr>)))"

definition TransferOwnership :: "ctx \<Rightarrow> string \<Rightarrow> string \<Rightarrow> error option \<times> ctx" where
  "TransferOwnership c pid newOwner = ModifyProduct c pid [] newOwner [] []"

definition RetrieveProduct :: "ctx \<Rightarrow> string \<Rightarrow> error + ProductEntity" where
  "RetrieveProduct c pid =
     (case GetState c pid of
        Inl e \<Rightarrow> Inl (FetchingErr e)
      | Inr None \<Rightarrow> Inl (NotFoundErr pid)
      | Inr (Some productBytes) \<Rightarrow>
          (case Unmarshal productBytes zero_ProductEntity of
             (product, Some e) \<Rightarrow> Inl (JsonErr e)
           | (product, None) \<Rightarrow> Inr product))"



section \<open>The terms of the statements\<close>

subsection \<open>Products on the wire\<close>

text \<open>
  A product with every field coerced to valid UTF-8: what reading back the bytes written
  for a product gives.
\<close>

definition coerce_product :: "ProductEntity \<Rightarrow> ProductEntity" where
  "coerce_product p =
     \<lparr>ProductID = coerce_utf8 (ProductID p), ProductName = coerce_utf8 (ProductName p),
      ProductStatus = coerce_utf8 (ProductStatus p), CurrentOwner = coerce_utf8 (CurrentOwner p),
      CreatedDate = coerce_utf8 (CreatedDate p), UpdatedDate = coerce_utf8 (UpdatedDate p),
      ProductCategory = coerce_utf8 (ProductCategory p),
      ProductDescription = coerce_utf8 (ProductDescription p)\<rparr>"

text \<open>
  A product all of whose fields are valid UTF-8; the tokens of the flat object the
  specification describes (section 6), the eight names in their order; and the bytes
  \<^verbatim>\<open>json.Marshal\<close> returns for a product.
\<close>

definition valid_product :: "ProductEntity \<Rightarrow> bool" where
  "valid_product p \<longleftrightarrow>
     ValidString (ProductID p) \<and> ValidString (ProductName p) \<and> ValidString (ProductStatus p) \<and>
     ValidString (CurrentOwner p) \<and> ValidString (CreatedDate p) \<and> ValidString (UpdatedDate p) \<and>
     ValidString (ProductCategory p) \<and> ValidString (ProductDescription p)"

definition wire_format :: "ProductEntity \<Rightarrow> token list" where
  "wire_format p =
     [LBrace, TString ''product_id'', Colon, TString (ProductID p), Comma,
      TString ''product_name'', Colon, TString (ProductName p), Comma,
      TString ''product_status'', Colon, TString (ProductStatus p), Comma,
      TString ''current_owner'', Colon, TString (CurrentOwner p), Comma,
      TString ''created_date'', Colon, TString (CreatedDate p), Comma,
      TString ''updated_date'', Colon, TString (UpdatedDate p), Comma,
      TString ''product_category'', Colon, TString (ProductCategory p), Comma,
      TString ''product_description'', Colon, TString (ProductDescription p),
      RBrace]"

definition wire :: "ProductEntity \<Rightarrow> string" where
  "wire p = (case Marshal p of Inr b \<Rightarrow> b | Inl e \<Rightarrow> [])"

text \<open>The product decoded from a stored value, and whether decoding reports no error.\<close>

definition decode :: "string \<Rightarrow> ProductEntity" where
  "decode v = fst (Unmarshal v zero_ProductEntity)"

definition decodes :: "string \<Rightarrow> bool" where
  "decodes v \<longleftrightarrow> snd (Unmarshal v zero_ProductEntity) = None"

text \<open>
  A token, and the tokens of a text, whose strings are valid UTF-8.
\<close>

definition valid_token :: "token \<Rightarrow> bool" where
  "valid_token t = (case t of TString s \<Rightarrow> ValidString s | _ \<Rightarrow> True)"

definition valid_tokens :: "token list option \<Rightarrow> bool" where
  "valid_tokens res = (case res of None \<Rightarrow> True | Some ts \<Rightarrow> list_all valid_token ts)"

subsection \<open>The merge rule of the specification\<close>

text \<open>
  The partial-update merge rule of the specification (section 4.1), written from its
  words: the ID, the name and the creation date are kept, each of status, owner,
  description and category is replaced by the proposed value unless that is the empty
  string, and the update date is the current time.
\<close>

definition spec_merge ::
  "ProductEntity \<Rightarrow> string \<Rightarrow> string \<Rightarrow> string \<Rightarrow> string \<Rightarrow> string \<Rightarrow> ProductEntity" where
  "spec_merge p status owner description category now =
     \<lparr>ProductID = ProductID p, ProductName = ProductName p,
      ProductStatus = (if status = [] then ProductStatus p else status),
      CurrentOwner = (if owner = [] then CurrentOwner p else owner),
      CreatedDate = CreatedDate p, UpdatedDate = now,
      ProductCategory = (if category = [] then ProductCategory p else category),
      ProductDescription = (if description = [] then ProductDescription p else description)\<rparr>"

subsection \<open>Sequences of operations\<close>

text \<open>
  The three operations that write a product, and a run of them: each operation is one
  transaction, executed in the context the previous one left, with the time of its own
  transaction. An operation that fails leaves the ledger as it was.
\<close>

datatype operation =
  Register string string string string string
  | Modify string string string string string
  | Transfer string string

fun exec :: "ctx \<Rightarrow> operation \<Rightarrow> error option \<times> ctx" where
  "exec c (Register pid name owner description category) =
     RegisterProduct c pid name owner description category"
| "exec c (Modify pid status owner description category) =
     ModifyProduct c pid status owner description category"
| "exec c (Transfer pid newOwner) = TransferOwnership c pid newOwner"

fun run :: "ctx \<Rightarrow> (Timestamp \<times> operation) list \<Rightarrow> ctx" where
  "run c [] = c"
| "run c ((ts, op) # rest) = run (snd (exec (c\<lparr>tx_timestamp := Inr ts\<rparr>) op)) rest"

text \<open>The rendered times of the transactions of a run.\<close>

definition rendered :: "ctx \<Rightarrow> (Timestamp \<times> operation) list \<Rightarrow> string list" where
  "rendered c ops = map (\<lambda>(ts, op). rfc3339 c ts) ops"

text \<open>
  Two invariants of the ledger, for an order \<open>le\<close> on rendered times and the latest time
  \<open>now\<close>. \<open>ledger_dates\<close>: every value is the encoding of a product whose two dates are
  valid UTF-8, in order, and not after \<open>now\<close>. \<open>ledger_ok\<close>: moreover the product carries
  the key it is stored under, and the key is valid UTF-8. \<open>registers_valid\<close> holds of an
  operation unless it registers an ID that is not valid UTF-8.
\<close>

definition ledger_ok :: "(string \<Rightarrow> string \<Rightarrow> bool) \<Rightarrow> string \<Rightarrow> ctx \<Rightarrow> bool" where
  "ledger_ok le now c \<longleftrightarrow>
     (\<forall>k v. map_of (state c) k = Some v \<longrightarrow>
        (\<exists>p. v = wire p \<and> ProductID p = k \<and> ValidString k \<and>
             ValidString (CreatedDate p) \<and> ValidString (UpdatedDate p) \<and>
             le (CreatedDate p) (UpdatedDate p) \<and> le (UpdatedDate p) now))"

definition registers_valid :: "operation \<Rightarrow> bool" where
  "registers_valid op \<longleftrightarrow>
     (case op of Register pid name owner description category \<Rightarrow> ValidString pid | _ \<Rightarrow> True)"

definition ledger_dates :: "(string \<Rightarrow> string \<Rightarrow> bool) \<Rightarrow> string \<Rightarrow> ctx \<Rightarrow> bool" where
  "ledger_dates le now c \<longleftrightarrow>
     (\<forall>k v. map_of (state c) k = Some v \<longrightarrow>
        (\<exists>p. v = wire p \<and> ValidString (CreatedDate p) \<and> ValidString (UpdatedDate p) \<and>
             le (CreatedDate p) (UpdatedDate p) \<and> le (UpdatedDate p) now))"

subsection \<open>Example contexts, products and runs\<close>

text \<open>
  A context without faults over an empty ledger, whose transaction is at noon of 1 June
  2024 (UTC), and the same context over a given ledger.
\<close>

definition ctx0 :: ctx where
  "ctx0 =
     \<lparr>state = [], get_fault = (\<lambda>_. None), put_fault = (\<lambda>_. None), range_fault = None,
      next_fault = (\<lambda>_. None), tx_timestamp = Inr \<lparr>Seconds = 1717243200, Nanos = 0\<rparr>,
      rfc3339 = (\<lambda>_. ''2024-06-01T12:00:00Z'')\<rparr>"

definition ctx_of :: "(string \<times> string) list \<Rightarrow> ctx" where
  "ctx_of kvs = ctx0\<lparr>state := kvs\<rparr>"

definition example_product :: ProductEntity where
  "example_product =
     \<lparr>ProductID = ''p1'', ProductName = ''Widget <A&B>'', ProductStatus = ''Manufactured'',
      CurrentOwner = ''Acme'', CreatedDate = ''2024-01-01T00:00:00Z'',
      UpdatedDate = ''2024-01-01T00:00:00Z'', ProductCategory = ''cat'',
      ProductDescription = ''desc''\<rparr>"



text \<open>A value whose \<^verbatim>\<open>product_status\<close> is a number.\<close>

definition malformed :: string where
  "malformed =
     ''{'' @ quote ''product_id'' @ '':'' @ quote ''p1'' @ '','' @ quote ''product_status'' @ '':7}''"

definition ctx_malformed :: ctx where
  "ctx_malformed = ctx_of [(''p1'', malformed)]"

text \<open>
  A clock for the three seconds after that noon, a context with this clock, and a run of
  the scenario of the specification (section 8).
\<close>

definition clock :: "Timestamp \<Rightarrow> string" where
  "clock ts =
     (if Seconds ts = 1717243201 then ''2024-06-01T12:00:01Z''
      else if Seconds ts = 1717243202 then ''2024-06-01T12:00:02Z''
      else ''2024-06-01T12:00:03Z'')"

definition at_second :: "int \<Rightarrow> Timestamp" where
  "at_second n = \<lparr>Seconds = 1717243200 + n, Nanos = 0\<rparr>"

definition ctx_clock :: ctx where
  "ctx_clock = ctx0\<lparr>rfc3339 := clock\<rparr>"

definition ops_ok :: "(Timestamp \<times> operation) list" where
  "ops_ok =
     [(at_second 1, Register ''p1'' ''Widget'' ''Acme'' ''desc'' ''cat''),
      (at_second 2, Modify ''p1'' ''Shipped'' [] [] []),
      (at_second 3, Transfer ''p1'' ''Bob'')]"

text \<open>
  A run that registers the ID U+FFFD, then the ID that is the single byte \<^verbatim>\<open>0xFF\<close>, and
  then modifies the latter.
\<close>

definition ops_bad :: "(Timestamp \<times> operation) list" where
  "ops_bad =
     [(at_second 1, Register [CHR 0xEF, CHR 0xBF, CHR 0xBD] ''A'' ''Acme'' ''d'' ''k''),
      (at_second 2, Register [CHR 0xFF] ''B'' ''Bob'' ''d'' ''k''),
      (at_second 3, Modify [CHR 0xFF] ''Shipped'' [] [] [])]"

text \<open>
  The context \<open>ctx_clock\<close> in the transaction of a given second; the ledger the first
  operation of \<open>ops_ok\<close> leaves (the product \<^verbatim>\<open>p1\<close>, registered in the first second), in
  the transaction of the second; and the ledger the two registrations of \<open>ops_bad\<close>
  leave, in the transaction of the third.
\<close>

definition ctx_second :: "int \<Rightarrow> ctx" where
  "ctx_second n = ctx_clock\<lparr>tx_timestamp := Inr (at_second n)\<rparr>"

definition ctx_p1 :: ctx where
  "ctx_p1 = (run ctx_clock (take 1 ops_ok))\<lparr>tx_timestamp := Inr (at_second 2)\<rparr>"

definition ctx_ff :: ctx where
  "ctx_ff = (run ctx_clock (take 2 ops_bad))\<lparr>tx_timestamp := Inr (at_second 3)\<rparr>"

section \<open>The encoding of a string, decoded\<close>

text \<open>
  The rune arithmetic of \<^verbatim>\<open>EncodeRune\<close> undoes that of \<^verbatim>\<open>DecodeRune\<close> on every valid
  encoding; with it, reading back the literal written for a string gives the string
  coerced to valid UTF-8.
\<close>

lemma split_byte:
  fixes p :: nat
  assumes "k * m \<le> p" "p < k * m + m"
  shows "p mod m = p - k * m" "p div m = k"
proof -
  obtain a where a: "p = k * m + a" using assms(1) by (auto simp: le_iff_add)
  with assms(2) have "a < m" by simp
  with a show "p mod m = p - k * m" "p div m = k" by simp_all
qed

lemma dm:
  fixes x y m :: nat
  assumes "y < m"
  shows "(x * m + y) div m = x" "(x * m + y) mod m = y"
  using assms by simp_all

lemma enc2:
  fixes p q r :: nat
  assumes "0xC2 \<le> p" "p \<le> 0xDF" "0x80 \<le> q" "q \<le> 0xBF" "r = (p mod 32) * 64 + q mod 64"
  shows "0x7F < r \<and> r \<le> 0x7FF \<and> 0xC0 + r div 64 = p \<and> 0x80 + r mod 64 = q"
proof -
  have pm: "p mod 32 = p - 192" using split_byte(1) [of 6 32 p] assms by simp
  have qm: "q mod 64 = q - 128" using split_byte(1) [of 2 64 q] assms by simp
  define a where "a = p - 192"
  define b where "b = q - 128"
  have ab: "p = 192 + a" "q = 128 + b" "2 \<le> a" "a < 32" "b < 64"
    using assms by (simp_all add: a_def b_def)
  have r: "r = a * 64 + b" using assms(5) pm qm by (simp add: a_def b_def)
  have "r div 64 = a" "r mod 64 = b" using ab by (simp_all add: r)
  moreover have "0x7F < r" "r \<le> 0x7FF" using ab by (simp_all add: r)
  ultimately show ?thesis using ab by simp
qed

lemma enc3:
  fixes p q1 q2 r :: nat
  assumes "0xE0 \<le> p" "p \<le> 0xEF" "accept_lo p \<le> q1" "q1 \<le> accept_hi p" "0x80 \<le> q2" "q2 \<le> 0xBF"
    "r = (p mod 16) * 4096 + (q1 mod 64) * 64 + q2 mod 64"
  shows "0x7FF < r \<and> r \<le> 0xFFFF \<and> \<not> (0xD800 \<le> r \<and> r \<le> 0xDFFF) \<and>
     0xE0 + r div 4096 = p \<and> 0x80 + (r div 64) mod 64 = q1 \<and> 0x80 + r mod 64 = q2"
proof -
  have q1: "0x80 \<le> q1" "q1 \<le> 0xBF"
    using assms(3,4) by (simp_all add: accept_lo_def accept_hi_def split: if_splits)
  have pm: "p mod 16 = p - 224" using split_byte(1) [of 14 16 p] assms by simp
  have qm: "q1 mod 64 = q1 - 128" using split_byte(1) [of 2 64 q1] q1 by simp
  have qm2: "q2 mod 64 = q2 - 128" using split_byte(1) [of 2 64 q2] assms by simp
  define a where "a = p - 224"
  define b where "b = q1 - 128"
  define d where "d = q2 - 128"
  have ab: "p = 224 + a" "q1 = 128 + b" "q2 = 128 + d" "a < 16" "b < 64" "d < 64"
    using assms q1 by (simp_all add: a_def b_def d_def)
  have lo: "a = 0 \<Longrightarrow> 32 \<le> b" using assms(3) ab by (simp add: accept_lo_def)
  have hi: "a = 13 \<Longrightarrow> b < 32" using assms(4) ab by (simp add: accept_hi_def)
  have r: "r = a * 4096 + (b * 64 + d)" using assms(7) pm qm qm2 by (simp add: a_def b_def d_def)
  have r': "r = (a * 64 + b) * 64 + d" by (simp add: r)
  have "b * 64 + d < 4096" using ab by simp
  then have d1: "r div 4096 = a" by (simp add: r)
  have d2: "r div 64 = a * 64 + b" unfolding r' using dm(1) [of d 64 "a * 64 + b"] ab by blast
  have d3: "(a * 64 + b) mod 64 = b" using dm(2) [of b 64 a] ab by blast
  have d4: "r mod 64 = d" unfolding r' using dm(2) [of d 64 "a * 64 + b"] ab by blast
  have b1: "0x7FF < r"
  proof (cases "a = 0")
    case True then show ?thesis using lo by (simp add: r)
  next
    case False then show ?thesis by (simp add: r)
  qed
  have b2: "r \<le> 0xFFFF" using ab by (simp add: r)
  have b3: "\<not> (0xD800 \<le> r \<and> r \<le> 0xDFFF)"
  proof (cases "a = 13")
    case True then show ?thesis using hi ab by (simp add: r)
  next
    case False
    then consider "a \<le> 12" | "14 \<le> a" by linarith
    then show ?thesis
    proof cases
      case 1 then show ?thesis using ab by (simp add: r)
    next
      case 2 then show ?thesis using ab by (simp add: r)
    qed
  qed
  show ?thesis using b1 b2 b3 d1 d2 d3 d4 ab by simp
qed

lemma enc4:
  fixes p q1 q2 q3 r :: nat
  assumes "0xF0 \<le> p" "p \<le> 0xF4" "accept_lo p \<le> q1" "q1 \<le> accept_hi p" "0x80 \<le> q2" "q2 \<le> 0xBF"
    "0x80 \<le> q3" "q3 \<le> 0xBF"
    "r = (p mod 8) * 262144 + (q1 mod 64) * 4096 + (q2 mod 64) * 64 + q3 mod 64"
  shows "0xFFFF < r \<and> r \<le> 0x10FFFF \<and>
     0xF0 + r div 262144 = p \<and> 0x80 + (r div 4096) mod 64 = q1 \<and>
     0x80 + (r div 64) mod 64 = q2 \<and> 0x80 + r mod 64 = q3"
proof -
  have q1: "0x80 \<le> q1" "q1 \<le> 0xBF"
    using assms(3,4) by (simp_all add: accept_lo_def accept_hi_def split: if_splits)
  have pm: "p mod 8 = p - 240" using split_byte(1) [of 30 8 p] assms by simp
  have qm: "q1 mod 64 = q1 - 128" using split_byte(1) [of 2 64 q1] q1 by simp
  have qm2: "q2 mod 64 = q2 - 128" using split_byte(1) [of 2 64 q2] assms by simp
  have qm3: "q3 mod 64 = q3 - 128" using split_byte(1) [of 2 64 q3] assms by simp
  define a where "a = p - 240"
  define b where "b = q1 - 128"
  define d where "d = q2 - 128"
  define e where "e = q3 - 128"
  have ab: "p = 240 + a" "q1 = 128 + b" "q2 = 128 + d" "q3 = 128 + e" "a \<le> 4" "b < 64" "d < 64" "e < 64"
    using assms q1 by (simp_all add: a_def b_def d_def e_def)
  have lo: "a = 0 \<Longrightarrow> 16 \<le> b" using assms(3) ab by (simp add: accept_lo_def)
  have hi: "a = 4 \<Longrightarrow> b < 16" using assms(4) ab by (simp add: accept_hi_def)
  have r: "r = a * 262144 + (b * 4096 + d * 64 + e)"
    using assms(9) pm qm qm2 qm3 by (simp add: a_def b_def d_def e_def)
  have r1: "r = (a * 64 + b) * 4096 + (d * 64 + e)" by (simp add: r)
  have r2: "r = ((a * 64 + b) * 64 + d) * 64 + e" by (simp add: r)
  have "b * 4096 + d * 64 + e < 262144" using ab by simp
  then have d1: "r div 262144 = a" by (simp add: r)
  have "d * 64 + e < 4096" using ab by simp
  then have d2: "r div 4096 = a * 64 + b"
    unfolding r1 using dm(1) [of "d * 64 + e" 4096 "a * 64 + b"] by blast
  have d2': "(a * 64 + b) mod 64 = b" using dm(2) [of b 64 a] ab by blast
  have d3: "r div 64 = (a * 64 + b) * 64 + d"
    unfolding r2 using dm(1) [of e 64 "(a * 64 + b) * 64 + d"] ab by blast
  have d3': "((a * 64 + b) * 64 + d) mod 64 = d" using dm(2) [of d 64 "a * 64 + b"] ab by blast
  have d4: "r mod 64 = e" unfolding r2 using dm(2) [of e 64 "(a * 64 + b) * 64 + d"] ab by blast
  have b1: "0xFFFF < r"
  proof (cases "a = 0")
    case True then show ?thesis using lo by (simp add: r)
  next
    case False then show ?thesis by (simp add: r)
  qed
  have b2: "r \<le> 0x10FFFF"
  proof (cases "a = 4")
    case True then show ?thesis using hi ab by (simp add: r)
  next
    case False then have "a \<le> 3" using ab by simp
    then show ?thesis using ab by (simp add: r)
  qed
  show ?thesis using b1 b2 d1 d2 d2' d3 d3' d4 ab by simp
qed

lemma list_shape:
  obtains "cs = []" | b1 where "cs = [b1]" | b1 b2 where "cs = [b1, b2]"
  | b1 b2 b3 t where "cs = b1 # b2 # b3 # t"
  by (metis list.exhaust)

lemma DecodeRune_ascii: "byte c < 0x80 \<Longrightarrow> DecodeRune (c # cs) = (byte c, 1)"
  by (simp add: DecodeRune.simps)

lemma DecodeRune_cases:
  assumes "DecodeRune (c # cs) = (r, sz)"
  shows
   "(byte c < 0x80 \<and> r = byte c \<and> sz = 1) \<or>
    (0x80 \<le> byte c \<and> r = RuneError \<and> sz = 1) \<or>
    (\<exists>b1 t. cs = b1 # t \<and> sz = 2 \<and> 0xC2 \<le> byte c \<and> byte c \<le> 0xDF \<and>
       0x80 \<le> byte b1 \<and> byte b1 \<le> 0xBF \<and>
       r = (byte c mod 32) * 64 + byte b1 mod 64) \<or>
    (\<exists>b1 b2 t. cs = b1 # b2 # t \<and> sz = 3 \<and> 0xE0 \<le> byte c \<and> byte c \<le> 0xEF \<and>
       accept_lo (byte c) \<le> byte b1 \<and> byte b1 \<le> accept_hi (byte c) \<and>
       0x80 \<le> byte b2 \<and> byte b2 \<le> 0xBF \<and>
       r = (byte c mod 16) * 4096 + (byte b1 mod 64) * 64 + byte b2 mod 64) \<or>
    (\<exists>b1 b2 b3 t. cs = b1 # b2 # b3 # t \<and> sz = 4 \<and> 0xF0 \<le> byte c \<and> byte c \<le> 0xF4 \<and>
       accept_lo (byte c) \<le> byte b1 \<and> byte b1 \<le> accept_hi (byte c) \<and>
       0x80 \<le> byte b2 \<and> byte b2 \<le> 0xBF \<and> 0x80 \<le> byte b3 \<and> byte b3 \<le> 0xBF \<and>
       r = (byte c mod 8) * 262144 + (byte b1 mod 64) * 4096 + (byte b2 mod 64) * 64
             + byte b3 mod 64)"
proof (cases cs rule: list_shape)
  case 1
  with assms show ?thesis
    by (auto simp: DecodeRune.simps Let_def split: if_splits)
next
  case (2 b1)
  with assms show ?thesis
    by (auto simp: DecodeRune.simps Let_def accept_lo_def accept_hi_def split: if_splits)
next
  case (3 b1 b2)
  with assms show ?thesis
    by (auto simp: DecodeRune.simps Let_def accept_lo_def accept_hi_def split: if_splits)
next
  case (4 b1 b2 b3 t)
  with assms show ?thesis
    by (auto simp: DecodeRune.simps Let_def accept_lo_def accept_hi_def split: if_splits)
qed

lemma DecodeRune_valid:
  assumes "DecodeRune (c # cs) = (r, sz)" "\<not> (r = RuneError \<and> sz = 1)"
  shows "EncodeRune r = take sz (c # cs)"
    and "DecodeRune (take sz (c # cs) @ ys) = (r, sz)"
    and "1 \<le> sz" and "sz \<le> Suc (length cs)"
proof -
  from DecodeRune_cases [OF assms(1)] assms(2)
  consider
    (1) "byte c < 0x80" "r = byte c" "sz = 1"
  | (2) b1 t where "cs = b1 # t" "sz = 2" "0xC2 \<le> byte c" "byte c \<le> 0xDF"
       "0x80 \<le> byte b1" "byte b1 \<le> 0xBF" "r = (byte c mod 32) * 64 + byte b1 mod 64"
  | (3) b1 b2 t where "cs = b1 # b2 # t" "sz = 3" "0xE0 \<le> byte c" "byte c \<le> 0xEF"
       "accept_lo (byte c) \<le> byte b1" "byte b1 \<le> accept_hi (byte c)"
       "0x80 \<le> byte b2" "byte b2 \<le> 0xBF"
       "r = (byte c mod 16) * 4096 + (byte b1 mod 64) * 64 + byte b2 mod 64"
  | (4) b1 b2 b3 t where "cs = b1 # b2 # b3 # t" "sz = 4" "0xF0 \<le> byte c" "byte c \<le> 0xF4"
       "accept_lo (byte c) \<le> byte b1" "byte b1 \<le> accept_hi (byte c)"
       "0x80 \<le> byte b2" "byte b2 \<le> 0xBF" "0x80 \<le> byte b3" "byte b3 \<le> 0xBF"
       "r = (byte c mod 8) * 262144 + (byte b1 mod 64) * 4096 + (byte b2 mod 64) * 64
             + byte b3 mod 64"
    by blast
  then have "EncodeRune r = take sz (c # cs) \<and> DecodeRune (take sz (c # cs) @ ys) = (r, sz)
     \<and> 1 \<le> sz \<and> sz \<le> Suc (length cs)"
  proof cases
    case 1
    then show ?thesis by (simp add: EncodeRune_def DecodeRune.simps)
  next
    case 2
    from enc2 [OF 2(3,4,5,6,7)]
    have e: "0x7F < r" "r \<le> 0x7FF" "0xC0 + r div 64 = byte c" "0x80 + r mod 64 = byte b1"
      by simp_all
    have "EncodeRune r = [c, b1]"
      using e(1,2) by (simp add: EncodeRune_def e(3,4))
    moreover have "DecodeRune (c # b1 # ys) = (r, 2)"
      using 2(3,4,5,6,7) by (simp add: DecodeRune.simps Let_def accept_lo_def accept_hi_def)
    ultimately show ?thesis using 2(1,2) by simp
  next
    case 3
    from enc3 [OF 3(3,4,5,6,7,8,9)]
    have e: "0x7FF < r" "r \<le> 0xFFFF" "\<not> (0xD800 \<le> r \<and> r \<le> 0xDFFF)"
      "0xE0 + r div 4096 = byte c" "0x80 + (r div 64) mod 64 = byte b1" "0x80 + r mod 64 = byte b2"
      by simp_all
    have "EncodeRune r = [c, b1, b2]"
      using e(1,2,3) by (auto simp add: EncodeRune_def e(4,5,6))
    moreover have "DecodeRune (c # b1 # b2 # ys) = (r, 3)"
      using 3(3,4,5,6,7,8,9) by (simp add: DecodeRune.simps Let_def)
    ultimately show ?thesis using 3(1,2) by simp
  next
    case 4
    from enc4 [OF 4(3,4,5,6,7,8,9,10,11)]
    have e: "0xFFFF < r" "r \<le> 0x10FFFF"
      "0xF0 + r div 262144 = byte c" "0x80 + (r div 4096) mod 64 = byte b1"
      "0x80 + (r div 64) mod 64 = byte b2" "0x80 + r mod 64 = byte b3"
      by simp_all
    have "EncodeRune r = [c, b1, b2, b3]"
      using e(1,2) by (simp add: EncodeRune_def e(3,4,5,6))
    moreover have "DecodeRune (c # b1 # b2 # b3 # ys) = (r, 4)"
      using 4(3,4,5,6,7,8,9,10,11) by (simp add: DecodeRune.simps Let_def)
    ultimately show ?thesis using 4(1,2) by simp
  qed
  then show "EncodeRune r = take sz (c # cs)"
    and "DecodeRune (take sz (c # cs) @ ys) = (r, sz)"
    and "1 \<le> sz" and "sz \<le> Suc (length cs)" by simp_all
qed

lemma hexval_hex: "n < 16 \<Longrightarrow> hexval (hex n) = Some n"
proof -
  assume "n < 16"
  then have "n \<in> set [0..<16]" by simp
  then have "n \<in> {0,1,2,3,4,5,6,7,8,9,10,11,12,13,14,15}"
    by (simp add: upt_rec numeral_eq_Suc) 
  then show ?thesis
    by (elim insertE emptyE) (simp_all add: hex_def hexval_def)
qed

declare unquote.simps [simp del] appendString.simps [simp del] coerce_utf8.simps [simp del]
  ValidString.simps [simp del]

lemma getu4_ascii:
  assumes "n < 0x80"
  shows "getu4 (CHR 0x5C # CHR ''u'' # CHR ''0'' # CHR ''0'' # hex (n div 16) # hex (n mod 16) # xs)
     = Some n"
proof -
  have "n div 16 < 16" "n mod 16 < 16" using assms by simp_all
  then have "hexval (hex (n div 16)) = Some (n div 16)" "hexval (hex (n mod 16)) = Some (n mod 16)"
    by (simp_all add: hexval_hex)
  moreover have "hexval CHR ''0'' = Some 0" by (simp add: hexval_def)
  ultimately show ?thesis by simp
qed

lemma unquote_escape_ascii:
  assumes "byte c < 0x80" "\<not> htmlSafe c"
  shows "unquote (escape_ascii c @ xs) = emit [c] (unquote xs)"
proof -
  consider "c = CHR 0x5C" | "c = CHR 0x22" | "c = CHR 0x08" | "c = CHR 0x0C" | "c = CHR 0x0A"
    | "c = CHR 0x0D" | "c = CHR 0x09"
    | "c \<notin> {CHR 0x5C, CHR 0x22, CHR 0x08, CHR 0x0C, CHR 0x0A, CHR 0x0D, CHR 0x09}"
    by blast
  then show ?thesis
  proof cases
    case 8
    then have e: "escape_ascii c =
        [CHR 0x5C, CHR ''u'', CHR ''0'', CHR ''0'', hex (byte c div 16), hex (byte c mod 16)]"
      by (simp add: escape_ascii_def)
    have g: "getu4 (CHR 0x5C # CHR ''u'' # CHR ''0'' # CHR ''0'' # hex (byte c div 16)
          # hex (byte c mod 16) # xs) = Some (byte c)"
      by (rule getu4_ascii [OF assms(1)])
    have s: "\<not> IsSurrogate (byte c)" using assms(1) by (simp add: IsSurrogate_def)
    have en: "EncodeRune (byte c) = [c]" using assms(1) by (simp add: EncodeRune_def)
    show ?thesis
      unfolding e append.simps by (subst unquote.simps) (simp del: getu4.simps add: g s en)
  qed (simp_all add: escape_ascii_def unquote.simps(2) [of "CHR 0x5C"] simple_escape_def)
qed

lemma unquote_safe:
  assumes "byte c < 0x80" "htmlSafe c"
  shows "unquote (c # xs) = emit [c] (unquote xs)"
  using assms by (subst unquote.simps) (auto simp: htmlSafe_def)

lemma unquote_rune:
  assumes "\<not> byte c < 0x80" "DecodeRune (c # xs) = (r, sz)"
  shows "unquote (c # xs) = emit (EncodeRune r) (unquote (drop (sz - 1) xs))"
  using assms by (subst unquote.simps) auto

lemma emit_Some_eq: "emit out (Some (s, rest)) = Some (out @ s, rest)"
  by (simp add: emit_def)

lemma unquote_appendString:
  "unquote (appendString s @ CHR 0x22 # rest) = Some (coerce_utf8 s, rest)"
proof (induction s rule: appendString.induct)
  case 1
  show ?case by (simp add: appendString.simps coerce_utf8.simps unquote.simps)
next
  case (2 c cs)
  show ?case
  proof (cases "byte c < 0x80")
    case True
    then have co: "coerce_utf8 (c # cs) = c # coerce_utf8 cs"
      by (simp add: coerce_utf8.simps DecodeRune_ascii RuneError_def)
    show ?thesis
    proof (cases "htmlSafe c")
      case safe: True
      with True "2.IH"(1) show ?thesis
        by (simp add: appendString.simps co unquote_safe emit_Some_eq)
    next
      case False
      with True "2.IH"(2) show ?thesis
        by (simp add: appendString.simps co unquote_escape_ascii emit_Some_eq)
    qed
  next
    case False
    obtain r sz where d: "DecodeRune (c # cs) = (r, sz)" by (cases "DecodeRune (c # cs)")
    have nq: "c \<noteq> CHR 0x22" "c \<noteq> CHR 0x5C" "\<not> byte c < 0x20" using False by auto
    show ?thesis
    proof (cases "r = RuneError \<and> sz = 1")
      case True
      have g: "getu4 (CHR 0x5C # CHR ''u'' # CHR ''f'' # CHR ''f'' # CHR ''f'' # CHR ''d'' # xs)
          = Some RuneError" for xs
        by (simp add: hexval_def RuneError_def)
      have s: "\<not> IsSurrogate RuneError" by (simp add: IsSurrogate_def RuneError_def)
      from "2.IH"(3) [OF False d [symmetric] True]
      have ih: "unquote (appendString cs @ CHR 0x22 # rest) = Some (coerce_utf8 cs, rest)" .
      have a: "appendString (c # cs) =
          [CHR 0x5C, CHR ''u'', CHR ''f'', CHR ''f'', CHR ''f'', CHR ''d''] @ appendString cs"
        using False d True by (simp add: appendString.simps)
      have co: "coerce_utf8 (c # cs) = EncodeRune RuneError @ coerce_utf8 cs"
        using d True by (simp add: coerce_utf8.simps)
      show ?thesis
        unfolding a co append.simps append_assoc
        by (subst unquote.simps) (simp del: getu4.simps add: g s ih emit_Some_eq)
    next
      case valid: False
      note v = DecodeRune_valid [OF d valid]
      have co: "coerce_utf8 (c # cs) = take sz (c # cs) @ coerce_utf8 (drop (sz - 1) cs)"
        using d valid by (auto simp add: coerce_utf8.simps)
      have tk: "take sz (c # cs) = c # take (sz - 1) cs"
        using v(3) by (cases sz) simp_all
      show ?thesis
      proof (cases "r = 0x2028 \<or> r = 0x2029")
        case True
        from "2.IH"(4) [OF False d [symmetric] valid True]
        have ih: "unquote (appendString (drop (sz - 1) cs) @ CHR 0x22 # rest)
            = Some (coerce_utf8 (drop (sz - 1) cs), rest)" .
        have a: "appendString (c # cs) =
            [CHR 0x5C, CHR ''u'', CHR ''2'', CHR ''0'', CHR ''2'', hex (r mod 16)]
              @ appendString (drop (sz - 1) cs)"
          using False d valid True by (simp add: appendString.simps)
        have g: "getu4 (CHR 0x5C # CHR ''u'' # CHR ''2'' # CHR ''0'' # CHR ''2'' # hex (r mod 16) # xs)
            = Some r" for xs
          using True by (auto simp: hexval_def hex_def)
        have s: "\<not> IsSurrogate r" using True by (auto simp: IsSurrogate_def)
        show ?thesis
          unfolding a co append.simps append_assoc using ih
          by (subst unquote.simps) (simp del: getu4.simps add: g s emit_Some_eq v(1))
      next
        case other: False
        from "2.IH"(5) [OF False d [symmetric] valid other]
        have ih: "unquote (appendString (drop (sz - 1) cs) @ CHR 0x22 # rest)
            = Some (coerce_utf8 (drop (sz - 1) cs), rest)" .
        have a: "appendString (c # cs) = take sz (c # cs) @ appendString (drop (sz - 1) cs)"
          using False d valid other by (simp add: appendString.simps)
        let ?ys = "appendString (drop (sz - 1) cs) @ CHR 0x22 # rest"
        have len: "sz - 1 \<le> length cs" using v(4) by simp
        have d': "DecodeRune (c # (take (sz - 1) cs @ ?ys)) = (r, sz)"
          using v(2) [of ?ys] by (simp add: tk)
        have dr: "drop (sz - 1) (take (sz - 1) cs @ ?ys) = ?ys"
          using len by simp
        have "unquote (c # (take (sz - 1) cs @ ?ys))
            = emit (EncodeRune r) (unquote (drop (sz - 1) (take (sz - 1) cs @ ?ys)))"
          by (rule unquote_rune [OF False d'])
        then have "unquote (c # (take (sz - 1) cs @ ?ys)) = emit (EncodeRune r) (unquote ?ys)"
          by (simp only: dr)
        then show ?thesis
          unfolding a co using ih by (simp add: tk emit_Some_eq v(1))
      qed
    qed
  qed
qed

lemma ValidString_coerce: "ValidString s \<Longrightarrow> coerce_utf8 s = s"
proof (induction s rule: coerce_utf8.induct)
  case 1
  show ?case by (simp add: coerce_utf8.simps)
next
  case (2 c cs)
  obtain r sz where d: "DecodeRune (c # cs) = (r, sz)" by (cases "DecodeRune (c # cs)")
  from "2.prems" d have valid: "\<not> (r = RuneError \<and> sz = 1)" and rest: "ValidString (drop (sz - 1) cs)"
    by (simp_all add: ValidString.simps)
  note v = DecodeRune_valid [OF d valid]
  have tk: "take sz (c # cs) = c # take (sz - 1) cs"
    using v(3) by (cases sz) simp_all
  from "2.IH"(2) [OF d [symmetric] valid rest] d valid show ?case
    by (auto simp add: coerce_utf8.simps tk)
qed

lemma coerce_utf8_ascii: "\<forall>c \<in> set s. byte c < 0x80 \<Longrightarrow> coerce_utf8 s = s"
  by (induction s) (simp_all add: coerce_utf8.simps DecodeRune_ascii RuneError_def)

lemma ValidString_ascii: "\<forall>c \<in> set s. byte c < 0x80 \<Longrightarrow> ValidString s"
  by (induction s) (simp_all add: ValidString.simps DecodeRune_ascii RuneError_def)

lemma EncodeRune_RuneError: "EncodeRune RuneError = [CHR 0xEF, CHR 0xBF, CHR 0xBD]"
  by (simp add: EncodeRune_def RuneError_def char_of_eq_iff)

lemma coerce_FFFD:
  "coerce_utf8 [CHR 0xFF] = [CHR 0xEF, CHR 0xBF, CHR 0xBD]"
  "coerce_utf8 [CHR 0xEF, CHR 0xBF, CHR 0xBD] = [CHR 0xEF, CHR 0xBF, CHR 0xBD]"
  by (simp_all add: coerce_utf8.simps DecodeRune.simps EncodeRune_RuneError Let_def
      accept_lo_def accept_hi_def)

section \<open>A product, encoded and decoded\<close>

text \<open>
  \<^verbatim>\<open>json.Unmarshal\<close> of the bytes \<^verbatim>\<open>json.Marshal\<close> returns for a product fills all eight
  fields, each with the string of the product coerced to valid UTF-8.
\<close>

declare lex.simps [simp del] object.simps [simp del]

lemma lex_quote: "lex (quote s @ rest) = tok (TString (coerce_utf8 s)) (lex rest)"
  by (simp add: quote_def lex.simps(2) [of "CHR 0x22"] whitespace_def unquote_appendString)

lemma lex_punct:
  "lex (CHR ''{'' # xs) = tok LBrace (lex xs)"
  "lex (CHR ''}'' # xs) = tok RBrace (lex xs)"
  "lex (CHR '':'' # xs) = tok Colon (lex xs)"
  "lex (CHR '','' # xs) = tok Comma (lex xs)"
  by (simp_all add: lex.simps(2) whitespace_def)

lemma lex_field_text:
  "\<forall>c \<in> set name. byte c < 0x80 \<Longrightarrow>
   lex (field_text name v @ rest) = (case lex rest of None \<Rightarrow> None
       | Some ts \<Rightarrow> Some (TString name # Colon # TString (coerce_utf8 v) # ts))"
  by (simp add: field_text_def lex_quote lex_punct coerce_utf8_ascii tok_def split: option.splits)

lemma lex_Marshal:
  "Marshal p = Inr b \<Longrightarrow>
   lex b = Some
     [LBrace, TString ''product_id'', Colon, TString (coerce_utf8 (ProductID p)), Comma,
      TString ''product_name'', Colon, TString (coerce_utf8 (ProductName p)), Comma,
      TString ''product_status'', Colon, TString (coerce_utf8 (ProductStatus p)), Comma,
      TString ''current_owner'', Colon, TString (coerce_utf8 (CurrentOwner p)), Comma,
      TString ''created_date'', Colon, TString (coerce_utf8 (CreatedDate p)), Comma,
      TString ''updated_date'', Colon, TString (coerce_utf8 (UpdatedDate p)), Comma,
      TString ''product_category'', Colon, TString (coerce_utf8 (ProductCategory p)), Comma,
      TString ''product_description'', Colon, TString (coerce_utf8 (ProductDescription p)),
      RBrace]"
  by (auto simp add: Marshal_def lex_field_text lex_punct tok_def lex.simps(1))

lemma object_string:
  "find_field key = Some f \<Longrightarrow>
   object (TString key # Colon # TString s # rest) (p, err)
     = object (after_value rest) (set_field f s p, err)"
  by (subst object.simps) simp

lemma object_end: "object [RBrace] acc = acc"
  by (cases acc) (simp add: object.simps)

lemma find_field_names:
  "find_field ''product_id'' = Some F_product_id"
  "find_field ''product_name'' = Some F_product_name"
  "find_field ''product_status'' = Some F_product_status"
  "find_field ''current_owner'' = Some F_current_owner"
  "find_field ''created_date'' = Some F_created_date"
  "find_field ''updated_date'' = Some F_updated_date"
  "find_field ''product_category'' = Some F_product_category"
  "find_field ''product_description'' = Some F_product_description"
  by (simp_all add: find_field_def struct_fields_def)

lemma Unmarshal_Marshal:
  assumes "Marshal p = Inr b"
  shows "Unmarshal b v = (coerce_product p, None)"
proof -
  note l = lex_Marshal [OF assms]
  have c: "checkValid (the (lex b))"
    unfolding l by (simp add: checkValid_def begin_value_def begin_string_def maxNestingDepth_def)
  show ?thesis
    unfolding Unmarshal_def l using c [unfolded l]
    by (simp add: object_string find_field_names after_value_def object_end coerce_product_def)
qed

lemma Marshal_wire: "Marshal p = Inr (wire p)"
  by (simp add: wire_def Marshal_def)

lemma coerce_product_valid: "valid_product p \<Longrightarrow> coerce_product p = p"
  by (simp add: valid_product_def coerce_product_def ValidString_coerce)

lemma decode_wire: "decode (wire p) = coerce_product p" "decodes (wire p)"
  by (simp_all add: decode_def decodes_def Unmarshal_Marshal [OF Marshal_wire])


lemma Unmarshal_malformed:
  "Unmarshal malformed zero_ProductEntity
     = (zero_ProductEntity\<lparr>ProductID := ''p1''\<rparr>, Some UnmarshalTypeError)"
proof -
  have n: "lex ''7}'' = Some [TNumber, RBrace]"
    by (simp add: lex.simps whitespace_def digit_def scan_number_def scan_frac_def scan_exp_def
        tok_def)
  have l: "lex malformed =
      Some [LBrace, TString ''product_id'', Colon, TString ''p1'', Comma,
            TString ''product_status'', Colon, TNumber, RBrace]"
    using n by (simp add: malformed_def lex_punct lex_quote coerce_utf8_ascii tok_def)
  have c: "checkValid (the (lex malformed))"
    unfolding l by (simp add: checkValid_def begin_value_def begin_string_def maxNestingDepth_def)
  have o: "object [TString ''product_status'', Colon, TNumber, RBrace] (p, None)
      = (p, Some UnmarshalTypeError)" for p
    by (subst object.simps)
       (simp add: find_field_names after_value_def object_end first_error_def)
  show ?thesis
    unfolding Unmarshal_def l using c [unfolded l]
    by (simp add: object_string find_field_names after_value_def o)
qed

section \<open>The operations of the contract, step by step\<close>

lemma saveProduct_cases:
  "saveProduct c p = (r, c') \<Longrightarrow>
     (r = None \<and> (\<exists>b. Marshal p = Inr b \<and> c' = c\<lparr>state := AList.update (ProductID p) b (state c)\<rparr>)) \<or>
     (r \<noteq> None \<and> c' = c)"
  by (auto simp: saveProduct_def PutState_def Marshal_def split: option.splits)

lemma saveProduct_ok:
  "put_fault c (ProductID p) = None \<Longrightarrow>
   saveProduct c p = (None, c\<lparr>state := AList.update (ProductID p) (wire p) (state c)\<rparr>)"
  by (simp add: saveProduct_def PutState_def Marshal_wire)

lemma saveProduct_fault:
  "put_fault c (ProductID p) = Some e \<Longrightarrow> saveProduct c p = (Some (StubErr e), c)"
  by (simp add: saveProduct_def PutState_def Marshal_wire)

lemma merge_eq_spec_merge:
  "(merge p status owner description category)\<lparr>UpdatedDate := t\<rparr>
     = spec_merge p status owner description category t"
  by (simp add: merge_def spec_merge_def Let_def)

lemma ModifyProduct_present:
  assumes "GetState c pid = Inr (Some b)" "fetchTransactionTimestamp c = Inr t"
  shows "ModifyProduct c pid status owner description category =
     saveProduct c (spec_merge (fst (Unmarshal b zero_ProductEntity)) status owner description category t)"
  using assms by (simp add: ModifyProduct_def Let_def merge_eq_spec_merge)

lemma GetState_after_put:
  "get_fault c k = None \<Longrightarrow>
   GetState (c\<lparr>state := AList.update k v (state c)\<rparr>) k = Inr (Some v)"
  by (simp add: GetState_def update_conv')

lemma GetState_no_fault: "GetState c k = Inr x \<Longrightarrow> get_fault c k = None"
  by (auto simp: GetState_def split: option.splits)

lemma RetrieveProduct_wire:
  "GetState c k = Inr (Some (wire p)) \<Longrightarrow> RetrieveProduct c k = Inr (coerce_product p)"
  by (simp add: RetrieveProduct_def Unmarshal_Marshal [OF Marshal_wire])

lemma RegisterProduct_result:
  assumes "RegisterProduct c pid name owner description category = (e, c')"
  shows "(e \<noteq> None \<and> c' = c) \<or>
     (e = None \<and> map_of (state c) pid = None \<and>
      (\<exists>t. fetchTransactionTimestamp c = Inr t \<and>
           c' = c\<lparr>state := AList.update pid
                  (wire \<lparr>ProductID = pid, ProductName = name, ProductStatus = ''Manufactured'',
                         CurrentOwner = owner, CreatedDate = t, UpdatedDate = t,
                         ProductCategory = category, ProductDescription = description\<rparr>)
                  (state c)\<rparr>))"
  using assms
  by (auto simp: RegisterProduct_def CheckProductExistence_def GetState_def saveProduct_def
      PutState_def Marshal_wire split: sum.splits option.splits if_splits)

lemma ModifyProduct_result:
  assumes "ModifyProduct c pid status owner description category = (e, c')"
  shows "c' = c \<or>
     (e = None \<and>
      (\<exists>b t. map_of (state c) pid = Some b \<and> fetchTransactionTimestamp c = Inr t \<and>
           c' = c\<lparr>state := AList.update
                  (ProductID (spec_merge (decode b) status owner description category t))
                  (wire (spec_merge (decode b) status owner description category t))
                  (state c)\<rparr>))"
proof (cases "GetState c pid")
  case (Inl x)
  with assms show ?thesis by (simp add: ModifyProduct_def)
next
  case (Inr x)
  show ?thesis
  proof (cases x)
    case None
    with Inr assms show ?thesis by (simp add: ModifyProduct_def)
  next
    case (Some b)
    have m: "map_of (state c) pid = Some b"
      using Inr Some by (auto simp: GetState_def split: option.splits)
    show ?thesis
    proof (cases "fetchTransactionTimestamp c")
      case (Inl e')
      with Inr Some assms show ?thesis by (simp add: ModifyProduct_def Let_def)
    next
      case t: (Inr t)
      let ?p' = "spec_merge (decode b) status owner description category t"
      from ModifyProduct_present [OF Inr [unfolded Some] t] assms
      have s: "saveProduct c ?p' = (e, c')" by (simp add: decode_def)
      show ?thesis
      proof (cases "put_fault c (ProductID ?p')")
        case None
        from saveProduct_ok [OF None] s m t show ?thesis by auto
      next
        case (Some e')
        from saveProduct_fault [OF Some] s show ?thesis by simp
      qed
    qed
  qed
qed

text \<open>Two registrations and a modification, evaluated.\<close>

lemma RegisterProduct_eval:
  assumes "map_of (state c) pid = None" "get_fault c pid = None" "put_fault c pid = None"
    "tx_timestamp c = Inr ts"
  shows "RegisterProduct c pid name owner description category =
    (None, c\<lparr>state := AList.update pid
       (wire \<lparr>ProductID = pid, ProductName = name, ProductStatus = ''Manufactured'',
              CurrentOwner = owner, CreatedDate = rfc3339 c ts, UpdatedDate = rfc3339 c ts,
              ProductCategory = category, ProductDescription = description\<rparr>) (state c)\<rparr>)"
  using assms
  by (simp add: RegisterProduct_def CheckProductExistence_def GetState_def
      fetchTransactionTimestamp_def GetTxTimestamp_def saveProduct_def PutState_def Marshal_wire)

lemma ModifyProduct_eval:
  assumes "map_of (state c) pid = Some (wire p)" "get_fault c pid = None"
    "put_fault c (coerce_utf8 (ProductID p)) = None" "tx_timestamp c = Inr ts"
  shows "ModifyProduct c pid status owner description category =
    (None, c\<lparr>state := AList.update (coerce_utf8 (ProductID p))
       (wire (spec_merge (coerce_product p) status owner description category (rfc3339 c ts)))
       (state c)\<rparr>)"
proof -
  have g: "GetState c pid = Inr (Some (wire p))" using assms(1,2) by (simp add: GetState_def)
  have f: "fetchTransactionTimestamp c = Inr (rfc3339 c ts)"
    using assms(4) by (simp add: fetchTransactionTimestamp_def GetTxTimestamp_def)
  have i: "ProductID (spec_merge (coerce_product p) status owner description category (rfc3339 c ts))
      = coerce_utf8 (ProductID p)"
    by (simp add: spec_merge_def coerce_product_def)
  show ?thesis
    using ModifyProduct_present [OF g f, of status owner description category]
      saveProduct_ok [of c "spec_merge (coerce_product p) status owner description category
        (rfc3339 c ts)"] assms(3)
    by (simp add: Unmarshal_Marshal [OF Marshal_wire] i)
qed

section \<open>The invariants of a run\<close>

lemma ledger_ok_mono:
  assumes "ledger_ok le now c" "le now t" "transp le"
  shows "ledger_ok le t c"
  using assms unfolding ledger_ok_def by (meson transpD)

text \<open>One operation keeps the ledger well formed and keeps every creation date.\<close>

lemma exec_step:
  assumes ok: "ledger_ok le now c"
    and t: "fetchTransactionTimestamp c = Inr t"
    and le: "le now t" "reflp le" "transp le"
    and vt: "ValidString t"
    and rv: "registers_valid op"
  shows "ledger_ok le t (snd (exec c op))"
    and "\<forall>k v. map_of (state c) k = Some v \<longrightarrow>
           (\<exists>v'. map_of (state (snd (exec c op))) k = Some v' \<and>
                 CreatedDate (decode v') = CreatedDate (decode v))"
proof -
  note mono = ledger_ok_mono [OF ok le(1) le(3)]
  have modify: "ledger_ok le t (snd (ModifyProduct c pid status owner description category)) \<and>
      (\<forall>k v. map_of (state c) k = Some v \<longrightarrow>
           (\<exists>v'. map_of (state (snd (ModifyProduct c pid status owner description category))) k
                   = Some v' \<and>
                 CreatedDate (decode v') = CreatedDate (decode v)))"
    for pid status owner description category
  proof -
    obtain e c' where r: "ModifyProduct c pid status owner description category = (e, c')"
      by (cases "ModifyProduct c pid status owner description category")
    from ModifyProduct_result [OF r] consider "c' = c"
      | b where "map_of (state c) pid = Some b"
        "c' = c\<lparr>state := AList.update
                  (ProductID (spec_merge (decode b) status owner description category t))
                  (wire (spec_merge (decode b) status owner description category t))
                  (state c)\<rparr>"
      using t by auto
    then show ?thesis
    proof cases
      case 1
      with r mono show ?thesis by simp
    next
      case (2 b)
      from ok 2(1) obtain p where p: "b = wire p" "ProductID p = pid" "ValidString pid"
        "ValidString (CreatedDate p)" "ValidString (UpdatedDate p)"
        "le (CreatedDate p) (UpdatedDate p)" "le (UpdatedDate p) now"
        unfolding ledger_ok_def by blast
      let ?q = "spec_merge (decode b) status owner description category t"
      have d: "decode b = coerce_product p" by (simp add: p(1) decode_wire)
      have q: "ProductID ?q = pid" "CreatedDate ?q = CreatedDate p" "UpdatedDate ?q = t"
        using p(2,3,4) by (simp_all add: spec_merge_def d coerce_product_def ValidString_coerce)
      have st: "map_of (state c') = (map_of (state c))(pid \<mapsto> wire ?q)"
        by (simp add: 2(2) q(1) update_conv')
      have lec: "le (CreatedDate p) t"
        using p(6,7) le(1,3) by (meson transpD)
      have "ledger_ok le t c'"
        unfolding ledger_ok_def
      proof (intro allI impI)
        fix k v assume kv: "map_of (state c') k = Some v"
        show "\<exists>p. v = wire p \<and> ProductID p = k \<and> ValidString k \<and>
             ValidString (CreatedDate p) \<and> ValidString (UpdatedDate p) \<and>
             le (CreatedDate p) (UpdatedDate p) \<and> le (UpdatedDate p) t"
        proof (cases "k = pid")
          case True
          with kv st have "v = wire ?q" by simp
          with True q p(3,4) vt lec le(2) show ?thesis
            by (intro exI [of _ ?q]) (simp add: reflpD)
        next
          case False
          with kv st have "map_of (state c) k = Some v" by simp
          with mono show ?thesis unfolding ledger_ok_def by blast
        qed
      qed
      moreover have "\<exists>v'. map_of (state c') k = Some v' \<and>
                 CreatedDate (decode v') = CreatedDate (decode v)"
        if kv: "map_of (state c) k = Some v" for k v
      proof (cases "k = pid")
        case True
        with kv 2(1) have v: "v = b" by simp
        have "CreatedDate (decode (wire ?q)) = coerce_utf8 (CreatedDate ?q)"
          by (simp add: decode_wire(1) coerce_product_def)
        also have "\<dots> = CreatedDate p"
          unfolding q(2) using p(4) by (rule ValidString_coerce)
        also have "\<dots> = CreatedDate (decode b)"
          using p(4) by (simp add: d coerce_product_def ValidString_coerce)
        finally show ?thesis using True st v by simp
      next
        case False
        with kv st show ?thesis by simp
      qed
      ultimately show ?thesis using r by simp
    qed
  qed
  have "ledger_ok le t (snd (exec c op)) \<and>
    (\<forall>k v. map_of (state c) k = Some v \<longrightarrow>
           (\<exists>v'. map_of (state (snd (exec c op))) k = Some v' \<and>
                 CreatedDate (decode v') = CreatedDate (decode v)))"
  proof (cases op)
    case (Register pid name owner description category)
    obtain e c' where r: "RegisterProduct c pid name owner description category = (e, c')"
      by (cases "RegisterProduct c pid name owner description category")
    let ?r = "\<lparr>ProductID = pid, ProductName = name, ProductStatus = ''Manufactured'',
                         CurrentOwner = owner, CreatedDate = t, UpdatedDate = t,
                         ProductCategory = category, ProductDescription = description\<rparr>"
    from RegisterProduct_result [OF r] consider "c' = c"
      | "map_of (state c) pid = None" "c' = c\<lparr>state := AList.update pid (wire ?r) (state c)\<rparr>"
      using t by auto
    then show ?thesis
    proof cases
      case 1
      with r mono Register show ?thesis by simp
    next
      case 2
      have vp: "ValidString pid" using rv Register by (simp add: registers_valid_def)
      have st: "map_of (state c') = (map_of (state c))(pid \<mapsto> wire ?r)"
        by (simp add: 2(2) update_conv')
      have "ledger_ok le t c'"
        unfolding ledger_ok_def
      proof (intro allI impI)
        fix k v assume kv: "map_of (state c') k = Some v"
        show "\<exists>p. v = wire p \<and> ProductID p = k \<and> ValidString k \<and>
             ValidString (CreatedDate p) \<and> ValidString (UpdatedDate p) \<and>
             le (CreatedDate p) (UpdatedDate p) \<and> le (UpdatedDate p) t"
        proof (cases "k = pid")
          case True
          with kv st have "v = wire ?r" by simp
          with True vp vt le(2) show ?thesis
            by (intro exI [of _ ?r]) (simp add: reflpD)
        next
          case False
          with kv st have "map_of (state c) k = Some v" by simp
          with mono show ?thesis unfolding ledger_ok_def by blast
        qed
      qed
      moreover have "\<exists>v'. map_of (state c') k = Some v' \<and>
                 CreatedDate (decode v') = CreatedDate (decode v)"
        if kv: "map_of (state c) k = Some v" for k v
      proof -
        from kv 2(1) have "k \<noteq> pid" by auto
        with kv st show ?thesis by simp
      qed
      ultimately show ?thesis using r Register by simp
    qed
  next
    case (Modify pid status owner description category)
    with modify [of pid status owner description category] show ?thesis by simp
  next
    case (Transfer pid newOwner)
    with modify [of pid "[]" newOwner "[]" "[]"] show ?thesis
      by (simp add: TransferOwnership_def)
  qed
  then show "ledger_ok le t (snd (exec c op))"
    and "\<forall>k v. map_of (state c) k = Some v \<longrightarrow>
           (\<exists>v'. map_of (state (snd (exec c op))) k = Some v' \<and>
                 CreatedDate (decode v') = CreatedDate (decode v))"
    by blast+
qed

lemma exec_frame: "snd (exec c op) = c\<lparr>state := state (snd (exec c op))\<rparr>"
proof (cases op)
  case (Register pid name owner description category)
  obtain e c' where r: "RegisterProduct c pid name owner description category = (e, c')"
    by (cases "RegisterProduct c pid name owner description category")
  from RegisterProduct_result [OF r] r Register show ?thesis by auto
next
  case (Modify pid status owner description category)
  obtain e c' where r: "ModifyProduct c pid status owner description category = (e, c')"
    by (cases "ModifyProduct c pid status owner description category")
  from ModifyProduct_result [OF r] r Modify show ?thesis by auto
next
  case (Transfer pid newOwner)
  obtain e c' where r: "ModifyProduct c pid [] newOwner [] [] = (e, c')"
    by (cases "ModifyProduct c pid [] newOwner [] []")
  from ModifyProduct_result [OF r] r Transfer show ?thesis
    by (auto simp: TransferOwnership_def)
qed

lemma exec_rfc3339: "rfc3339 (snd (exec (c\<lparr>tx_timestamp := x\<rparr>) op)) = rfc3339 c"
  by (subst exec_frame) simp

lemma run_append: "run c (pre @ post) = run (run c pre) post"
  by (induction pre arbitrary: c) auto

lemma run_rfc3339: "rfc3339 (run c ops) = rfc3339 c"
  by (induction ops arbitrary: c) (auto simp: exec_rfc3339)

lemma rendered_run: "rendered (run c pre) ops = rendered c ops"
  by (simp add: rendered_def run_rfc3339)

lemma run_ok:
  assumes "ledger_ok le now c" "reflp le" "transp le"
    and "sorted_wrt le (now # rendered c ops)"
    and "\<forall>(ts, op) \<in> set ops. ValidString (rfc3339 c ts) \<and> registers_valid op"
  shows "ledger_ok le (last (now # rendered c ops)) (run c ops) \<and>
     (\<forall>k v. map_of (state c) k = Some v \<longrightarrow>
        (\<exists>v'. map_of (state (run c ops)) k = Some v' \<and>
              CreatedDate (decode v') = CreatedDate (decode v)))"
  using assms
proof (induction ops arbitrary: c now)
  case Nil
  then show ?case by (simp add: rendered_def)
next
  case (Cons x rest)
  obtain ts op where x: "x = (ts, op)" by (cases x)
  let ?t = "rfc3339 c ts"
  let ?c0 = "c\<lparr>tx_timestamp := Inr ts\<rparr>"
  let ?c1 = "snd (exec ?c0 op)"
  have ok0: "ledger_ok le now ?c0"
    using Cons.prems(1) by (simp add: ledger_ok_def)
  have f: "fetchTransactionTimestamp ?c0 = Inr ?t"
    by (simp add: fetchTransactionTimestamp_def GetTxTimestamp_def)
  have le: "le now ?t" and srt: "sorted_wrt le (?t # rendered c rest)"
    using Cons.prems(4) x by (simp_all add: rendered_def)
  have v: "ValidString ?t" "registers_valid op"
    using Cons.prems(5) x by simp_all
  note step = exec_step [OF ok0 f le Cons.prems(2,3) v]
  have r1: "rfc3339 ?c1 = rfc3339 c" by (rule exec_rfc3339)
  have "ledger_ok le (last (?t # rendered ?c1 rest)) (run ?c1 rest) \<and>
     (\<forall>k v. map_of (state ?c1) k = Some v \<longrightarrow>
        (\<exists>v'. map_of (state (run ?c1 rest)) k = Some v' \<and>
              CreatedDate (decode v') = CreatedDate (decode v)))"
  proof (rule Cons.IH [OF step(1) Cons.prems(2,3)])
    show "sorted_wrt le (?t # rendered ?c1 rest)"
      using srt by (simp add: rendered_def r1)
    show "\<forall>(ts, op) \<in> set rest. ValidString (rfc3339 ?c1 ts) \<and> registers_valid op"
      using Cons.prems(5) by (simp add: r1)
  qed
  moreover have "rendered ?c1 rest = rendered c rest" by (simp add: rendered_def r1)
  moreover have "last (now # rendered c (x # rest)) = last (?t # rendered c rest)"
    by (simp add: rendered_def x)
  moreover have "run c (x # rest) = run ?c1 rest" by (simp add: x)
  ultimately show ?case using step(2) by (simp del: run.simps last.simps) metis
qed

lemma ledger_dates_mono:
  assumes "ledger_dates le now c" "le now t" "transp le"
  shows "ledger_dates le t c"
  using assms unfolding ledger_dates_def by (meson transpD)

lemma ledger_dates_update:
  assumes "ledger_dates le t c"
    and "ValidString (CreatedDate q)" "ValidString (UpdatedDate q)"
    and "le (CreatedDate q) (UpdatedDate q)" "le (UpdatedDate q) t"
  shows "ledger_dates le t (c\<lparr>state := AList.update k (wire q) (state c)\<rparr>)"
  unfolding ledger_dates_def
proof (intro allI impI)
  fix k' v
  assume "map_of (state (c\<lparr>state := AList.update k (wire q) (state c)\<rparr>)) k' = Some v"
  then have "(k' = k \<and> v = wire q) \<or> map_of (state c) k' = Some v"
    by (auto simp: update_conv' split: if_splits)
  then show "\<exists>p. v = wire p \<and> ValidString (CreatedDate p) \<and> ValidString (UpdatedDate p) \<and>
             le (CreatedDate p) (UpdatedDate p) \<and> le (UpdatedDate p) t"
    using assms unfolding ledger_dates_def by blast
qed

text \<open>One operation keeps the dates of the ledger in order, whatever its arguments.\<close>

lemma exec_step_dates:
  assumes ok: "ledger_dates le now c"
    and t: "fetchTransactionTimestamp c = Inr t"
    and le: "le now t" "reflp le" "transp le"
    and vt: "ValidString t"
  shows "ledger_dates le t (snd (exec c op))"
proof -
  note mono = ledger_dates_mono [OF ok le(1) le(3)]
  have modify: "ledger_dates le t (snd (ModifyProduct c pid status owner description category))"
    for pid status owner description category
  proof -
    obtain e c' where r: "ModifyProduct c pid status owner description category = (e, c')"
      by (cases "ModifyProduct c pid status owner description category")
    from ModifyProduct_result [OF r] consider "c' = c"
      | b where "map_of (state c) pid = Some b"
        "c' = c\<lparr>state := AList.update
                  (ProductID (spec_merge (decode b) status owner description category t))
                  (wire (spec_merge (decode b) status owner description category t))
                  (state c)\<rparr>"
      using t by auto
    then show ?thesis
    proof cases
      case 1
      with r mono show ?thesis by simp
    next
      case (2 b)
      from ok 2(1) obtain p where p: "b = wire p"
        "ValidString (CreatedDate p)" "ValidString (UpdatedDate p)"
        "le (CreatedDate p) (UpdatedDate p)" "le (UpdatedDate p) now"
        unfolding ledger_dates_def by blast
      let ?q = "spec_merge (decode b) status owner description category t"
      have q: "CreatedDate ?q = CreatedDate p" "UpdatedDate ?q = t"
        using p(2) by (simp_all add: spec_merge_def p(1) decode_wire coerce_product_def
            ValidString_coerce)
      have "le (CreatedDate p) t" using p(4,5) le(1,3) by (meson transpD)
      then have "ledger_dates le t c'"
        unfolding 2(2) using p(2) vt le(2)
        by (intro ledger_dates_update [OF mono]) (simp_all add: q reflpD)
      with r show ?thesis by simp
    qed
  qed
  show ?thesis
  proof (cases op)
    case (Register pid name owner description category)
    obtain e c' where r: "RegisterProduct c pid name owner description category = (e, c')"
      by (cases "RegisterProduct c pid name owner description category")
    let ?r = "\<lparr>ProductID = pid, ProductName = name, ProductStatus = ''Manufactured'',
                         CurrentOwner = owner, CreatedDate = t, UpdatedDate = t,
                         ProductCategory = category, ProductDescription = description\<rparr>"
    from RegisterProduct_result [OF r] consider "c' = c"
      | "c' = c\<lparr>state := AList.update pid (wire ?r) (state c)\<rparr>"
      using t by auto
    then show ?thesis
    proof cases
      case 1
      with r mono Register show ?thesis by simp
    next
      case 2
      have "ledger_dates le t c'"
        unfolding 2 using vt le(2)
        by (intro ledger_dates_update [OF mono]) (simp_all add: reflpD)
      with r Register show ?thesis by simp
    qed
  next
    case (Modify pid status owner description category)
    with modify [of pid status owner description category] show ?thesis by simp
  next
    case (Transfer pid newOwner)
    with modify [of pid "[]" newOwner "[]" "[]"] show ?thesis
      by (simp add: TransferOwnership_def)
  qed
qed

lemma run_dates:
  assumes "ledger_dates le now c" "reflp le" "transp le"
    and "sorted_wrt le (now # rendered c ops)"
    and "\<forall>(ts, op) \<in> set ops. ValidString (rfc3339 c ts)"
  shows "ledger_dates le (last (now # rendered c ops)) (run c ops)"
  using assms
proof (induction ops arbitrary: c now)
  case Nil
  then show ?case by (simp add: rendered_def)
next
  case (Cons x rest)
  obtain ts op where x: "x = (ts, op)" by (cases x)
  let ?t = "rfc3339 c ts"
  let ?c0 = "c\<lparr>tx_timestamp := Inr ts\<rparr>"
  let ?c1 = "snd (exec ?c0 op)"
  have ok0: "ledger_dates le now ?c0"
    using Cons.prems(1) by (simp add: ledger_dates_def)
  have f: "fetchTransactionTimestamp ?c0 = Inr ?t"
    by (simp add: fetchTransactionTimestamp_def GetTxTimestamp_def)
  have le: "le now ?t" and srt: "sorted_wrt le (?t # rendered c rest)"
    using Cons.prems(4) x by (simp_all add: rendered_def)
  have v: "ValidString ?t"
    using Cons.prems(5) x by simp
  note step = exec_step_dates [OF ok0 f le Cons.prems(2,3) v, of op]
  have r1: "rfc3339 ?c1 = rfc3339 c" by (rule exec_rfc3339)
  have "ledger_dates le (last (?t # rendered ?c1 rest)) (run ?c1 rest)"
  proof (rule Cons.IH [OF step Cons.prems(2,3)])
    show "sorted_wrt le (?t # rendered ?c1 rest)"
      using srt by (simp add: rendered_def r1)
    show "\<forall>(ts, op) \<in> set rest. ValidString (rfc3339 ?c1 ts)"
      using Cons.prems(5) by (simp add: r1)
  qed
  moreover have "rendered ?c1 rest = rendered c rest" by (simp add: rendered_def r1)
  moreover have "last (now # rendered c (x # rest)) = last (?t # rendered c rest)"
    by (simp add: rendered_def x)
  moreover have "run c (x # rest) = run ?c1 rest" by (simp add: x)
  ultimately show ?case by (simp del: run.simps last.simps)
qed

lemma string_le_refl_trans:
  "reflp ((\<le>) :: string \<Rightarrow> string \<Rightarrow> bool)" "transp ((\<le>) :: string \<Rightarrow> string \<Rightarrow> bool)"
  by (auto simp: reflp_def transp_def)

section \<open>The scan of the ledger\<close>





section \<open>Every decoded string is valid UTF-8\<close>

text \<open>
  \<^verbatim>\<open>EncodeRune\<close> writes a valid encoding for every rune, so every string \<^verbatim>\<open>unquote\<close>
  returns is valid UTF-8, and so is every field of a product \<^verbatim>\<open>json.Unmarshal\<close> has
  filled.
\<close>

lemma div_less_bound: fixes m :: nat shows "m < n * q \<Longrightarrow> m div q < n"
  by (cases "q = 0") (simp_all add: div_less_iff_less_mult)

lemma div_ge_bound: fixes m :: nat shows "0 < q \<Longrightarrow> n * q \<le> m \<Longrightarrow> n \<le> m div q"
  by (simp add: less_eq_div_iff_mult_less_eq)

lemma enc2_range:
  fixes r :: nat
  assumes "0x7F < r" "r \<le> 0x7FF"
  shows "2 \<le> r div 64" "r div 64 \<le> 31"
proof -
  show "2 \<le> r div 64" using assms(1) by (intro div_ge_bound) simp_all
  have "r div 64 < 32" using assms(2) by (intro div_less_bound) simp
  then show "r div 64 \<le> 31" by simp
qed

lemma enc3_range:
  fixes r :: nat
  assumes "0x7FF < r" "r \<le> 0xFFFF" "\<not> (0xD800 \<le> r \<and> r \<le> 0xDFFF)"
  shows "r div 4096 \<le> 15" "r div 4096 = 0 \<Longrightarrow> 32 \<le> (r div 64) mod 64"
    "r div 4096 = 13 \<Longrightarrow> (r div 64) mod 64 < 32"
proof -
  have "r div 4096 < 16" using assms(2) by (intro div_less_bound) simp
  then show "r div 4096 \<le> 15" by simp
  have ge: "32 \<le> r div 64" using assms(1) by (intro div_ge_bound) simp_all
  show "32 \<le> (r div 64) mod 64" if "r div 4096 = 0"
  proof -
    have "r < 4096" using that by (simp add: div_eq_0_iff)
    then have "r div 64 < 64" by (intro div_less_bound) simp
    then show ?thesis using ge by simp
  qed
  show "(r div 64) mod 64 < 32" if "r div 4096 = 13"
  proof -
    have lo: "13 * 4096 \<le> r" using that div_times_less_eq_dividend [of r 4096] by simp
    have "r < 14 * 4096"
    proof (rule ccontr)
      assume "\<not> r < 14 * 4096"
      then have "14 \<le> r div 4096" by (intro div_ge_bound) simp_all
      with that show False by simp
    qed
    with assms(3) lo have hi: "r < 0xD800" by simp
    have 1: "13 * 64 \<le> r div 64" using lo by (intro div_ge_bound) simp_all
    have 2: "r div 64 < 864" using hi by (intro div_less_bound) simp
    have "(r div 64) mod 64 = r div 64 - 13 * 64" using 1 2 by (intro split_byte(1)) simp_all
    with 2 show ?thesis by simp
  qed
qed

lemma enc4_range:
  fixes r :: nat
  assumes "0xFFFF < r" "r \<le> 0x10FFFF"
  shows "r div 262144 \<le> 4" "r div 262144 = 0 \<Longrightarrow> 16 \<le> (r div 4096) mod 64"
    "r div 262144 = 4 \<Longrightarrow> (r div 4096) mod 64 < 16"
proof -
  have "r div 262144 < 5" using assms(2) by (intro div_less_bound) simp
  then show "r div 262144 \<le> 4" by simp
  have ge: "16 \<le> r div 4096" using assms(1) by (intro div_ge_bound) simp_all
  show "16 \<le> (r div 4096) mod 64" if "r div 262144 = 0"
  proof -
    have "r < 262144" using that by (simp add: div_eq_0_iff)
    then have "r div 4096 < 64" by (intro div_less_bound) simp
    then show ?thesis using ge by simp
  qed
  show "(r div 4096) mod 64 < 16" if "r div 262144 = 4"
  proof -
    have lo: "4 * 262144 \<le> r" using that div_times_less_eq_dividend [of r 262144] by simp
    have 1: "4 * 64 \<le> r div 4096" using lo by (intro div_ge_bound) simp_all
    have 2: "r div 4096 < 272" using assms(2) by (intro div_less_bound) simp
    have "(r div 4096) mod 64 = r div 4096 - 4 * 64" using 1 2 by (intro split_byte(1)) simp_all
    with 2 show ?thesis by simp
  qed
qed


lemma DecodeRune_width2:
  assumes "byte c0 = p0" "0xC2 \<le> p0" "p0 \<le> 0xDF" "byte c1 = b1" "0x80 \<le> b1" "b1 \<le> 0xBF"
  shows "snd (DecodeRune (c0 # c1 # s)) = 2"
  using assms by (simp add: DecodeRune.simps Let_def accept_lo_def accept_hi_def)

lemma DecodeRune_width3:
  assumes "byte c0 = p0" "0xE0 \<le> p0" "p0 \<le> 0xEF" "byte c1 = b1" "accept_lo p0 \<le> b1"
    "b1 \<le> accept_hi p0" "byte c2 = b2" "0x80 \<le> b2" "b2 \<le> 0xBF"
  shows "snd (DecodeRune (c0 # c1 # c2 # s)) = 3"
  using assms by (simp add: DecodeRune.simps Let_def)

lemma DecodeRune_width4:
  assumes "byte c0 = p0" "0xF0 \<le> p0" "p0 \<le> 0xF4" "byte c1 = b1" "accept_lo p0 \<le> b1"
    "b1 \<le> accept_hi p0" "byte c2 = b2" "0x80 \<le> b2" "b2 \<le> 0xBF" "byte c3 = b3" "0x80 \<le> b3"
    "b3 \<le> 0xBF"
  shows "snd (DecodeRune (c0 # c1 # c2 # c3 # s)) = 4"
  using assms by (simp add: DecodeRune.simps Let_def)

lemma ValidString_width:
  assumes "snd (DecodeRune (c # cs @ s)) = Suc (length cs)" "cs \<noteq> []"
  shows "ValidString (c # cs @ s) = ValidString s"
proof -
  obtain r where "DecodeRune (c # cs @ s) = (r, Suc (length cs))"
    using assms(1) by (cases "DecodeRune (c # cs @ s)") simp
  then show ?thesis using assms(2) by (simp add: ValidString.simps)
qed

lemma ValidString_ascii_Cons: "byte c < 0x80 \<Longrightarrow> ValidString (c # s) = ValidString s"
  by (simp add: ValidString.simps DecodeRune_ascii RuneError_def)

lemma ValidString_EncodeRune: "ValidString (EncodeRune r @ s) = ValidString s"
proof -
  consider "r \<le> 0x7F" | "0x7F < r" "r \<le> 0x7FF"
    | "0x7FF < r" "0x10FFFF < r \<or> (0xD800 \<le> r \<and> r \<le> 0xDFFF)"
    | "0x7FF < r" "r \<le> 0xFFFF" "\<not> (0xD800 \<le> r \<and> r \<le> 0xDFFF)"
    | "0xFFFF < r" "r \<le> 0x10FFFF"
    by linarith
  then show ?thesis
  proof cases
    case 1
    then show ?thesis by (simp add: EncodeRune_def ValidString_ascii_Cons)
  next
    case 2
    define p0 where "p0 = 0xC0 + r div 64"
    define b1 where "b1 = 0x80 + r mod 64"
    have p0: "0xC2 \<le> p0" "p0 \<le> 0xDF" using enc2_range [OF 2] by (simp_all add: p0_def)
    have b1: "0x80 \<le> b1" "b1 \<le> 0xBF" by (simp_all add: b1_def)
    have e: "EncodeRune r = [char_of p0, char_of b1]"
      using 2 by (simp add: EncodeRune_def p0_def b1_def)
    have "snd (DecodeRune (char_of p0 # char_of b1 # s)) = 2"
      using p0 b1 by (intro DecodeRune_width2 [of _ p0 _ b1]) simp_all
    then show ?thesis
      unfolding e using ValidString_width [of "char_of p0" "[char_of b1]" s] by simp
  next
    case 3
    have e: "EncodeRune r = [CHR 0xEF, CHR 0xBF, CHR 0xBD]"
      using 3 by (auto simp: EncodeRune_def)
    have "snd (DecodeRune (CHR 0xEF # CHR 0xBF # CHR 0xBD # s)) = 3"
      by (intro DecodeRune_width3 [of _ "0xEF" _ "0xBF" _ "0xBD"])
         (simp_all add: accept_lo_def accept_hi_def)
    then show ?thesis
      unfolding e using ValidString_width [of "CHR 0xEF" "[CHR 0xBF, CHR 0xBD]" s] by simp
  next
    case 4
    define a where "a = r div 4096"
    define b where "b = (r div 64) mod 64"
    define p0 where "p0 = 0xE0 + a"
    define b1 where "b1 = 0x80 + b"
    define b2 where "b2 = 0x80 + r mod 64"
    have R: "a \<le> 15" "a = 0 \<Longrightarrow> 32 \<le> b" "a = 13 \<Longrightarrow> b < 32" "b < 64"
      using enc3_range [OF 4] unfolding a_def b_def by simp_all
    have p0: "0xE0 \<le> p0" "p0 \<le> 0xEF" using R(1) by (simp_all add: p0_def)
    have b1: "accept_lo p0 \<le> b1" "b1 \<le> accept_hi p0"
      using R by (auto simp: accept_lo_def accept_hi_def p0_def b1_def)
    have b2: "0x80 \<le> b2" "b2 \<le> 0xBF" by (simp_all add: b2_def)
    have lt: "p0 < 256" "b1 < 256" "b2 < 256" using p0 R(4) by (simp_all add: b1_def b2_def)
    have e: "EncodeRune r = [char_of p0, char_of b1, char_of b2]"
      using 4 by (auto simp: EncodeRune_def p0_def b1_def b2_def a_def b_def)
    have "snd (DecodeRune (char_of p0 # char_of b1 # char_of b2 # s)) = 3"
      using p0 b1 b2 lt by (intro DecodeRune_width3 [of _ p0 _ b1 _ b2]) simp_all
    then show ?thesis
      unfolding e
      using ValidString_width [of "char_of p0" "[char_of b1, char_of b2]" s] by simp
  next
    case 5
    define a where "a = r div 262144"
    define b where "b = (r div 4096) mod 64"
    define p0 where "p0 = 0xF0 + a"
    define b1 where "b1 = 0x80 + b"
    define b2 where "b2 = 0x80 + (r div 64) mod 64"
    define b3 where "b3 = 0x80 + r mod 64"
    have R: "a \<le> 4" "a = 0 \<Longrightarrow> 16 \<le> b" "a = 4 \<Longrightarrow> b < 16" "b < 64"
      using enc4_range [OF 5] unfolding a_def b_def by simp_all
    have p0: "0xF0 \<le> p0" "p0 \<le> 0xF4" using R(1) by (simp_all add: p0_def)
    have b1: "accept_lo p0 \<le> b1" "b1 \<le> accept_hi p0"
      using R by (auto simp: accept_lo_def accept_hi_def p0_def b1_def)
    have b2: "0x80 \<le> b2" "b2 \<le> 0xBF" by (simp_all add: b2_def)
    have b3: "0x80 \<le> b3" "b3 \<le> 0xBF" by (simp_all add: b3_def)
    have lt: "p0 < 256" "b1 < 256" "b2 < 256" "b3 < 256"
      using p0 R(4) by (simp_all add: b1_def b2_def b3_def)
    have e: "EncodeRune r = [char_of p0, char_of b1, char_of b2, char_of b3]"
      using 5 by (auto simp: EncodeRune_def p0_def b1_def b2_def b3_def a_def b_def)
    have "snd (DecodeRune (char_of p0 # char_of b1 # char_of b2 # char_of b3 # s)) = 4"
      using p0 b1 b2 b3 lt by (intro DecodeRune_width4 [of _ p0 _ b1 _ b2 _ b3]) simp_all
    then show ?thesis
      unfolding e
      using ValidString_width [of "char_of p0" "[char_of b1, char_of b2, char_of b3]" s] by simp
  qed
qed

lemma simple_escape_ascii: "simple_escape e = Some ch \<Longrightarrow> byte ch < 0x80"
  by (auto simp: simple_escape_def split: if_splits)

lemma unquote_valid_aux:
  "length cs \<le> n \<Longrightarrow> unquote cs = Some (s, rest) \<Longrightarrow> ValidString s"
proof (induction n arbitrary: cs s)
  case 0
  then show ?case by (simp add: unquote.simps)
next
  case (Suc n)
  have H: "ValidString s'"
    if "unquote (drop k ys) = Some (s', rest)" "length ys \<le> n" for k ys s'
  proof -
    have "length (drop k ys) \<le> n" using that(2) by simp
    from Suc.IH [OF this that(1)] show ?thesis .
  qed
  have H0: "ValidString s'" if "unquote ys = Some (s', rest)" "length ys \<le> n" for ys s'
    using H [of 0 ys s'] that by simp
  show ?case
  proof (cases cs)
    case Nil
    with Suc.prems show ?thesis by (simp add: unquote.simps)
  next
    case (Cons c cs')
    have n: "length cs' \<le> n" using Suc.prems(1) Cons by simp
    from Suc.prems(2) n show ?thesis
      unfolding Cons
      by (subst (asm) unquote.simps)
         (auto simp: emit_Some ValidString_EncodeRune ValidString_ascii_Cons ValidString.simps(1)
               less_Suc_eq_le
               split: if_splits list.splits option.splits prod.splits
               dest!: H H0 simple_escape_ascii)
  qed
qed

lemma unquote_valid: "unquote cs = Some (s, rest) \<Longrightarrow> ValidString s"
  using unquote_valid_aux [of cs "length cs"] by simp

lemma valid_tokens_tok: "valid_token t \<Longrightarrow> valid_tokens res \<Longrightarrow> valid_tokens (tok t res)"
  by (auto simp: tok_def valid_tokens_def split: option.splits)

lemma valid_tokens_if:
  "(A \<Longrightarrow> valid_tokens x) \<Longrightarrow> (\<not> A \<Longrightarrow> valid_tokens y) \<Longrightarrow> valid_tokens (if A then x else y)"
  by simp

lemma lex_valid_aux: "length cs \<le> n \<Longrightarrow> valid_tokens (lex cs)"
proof (induction n arbitrary: cs)
  case 0
  then show ?case by (simp add: lex.simps valid_tokens_def)
next
  case (Suc n)
  show ?case
  proof (cases cs)
    case Nil
    then show ?thesis by (simp add: lex.simps valid_tokens_def)
  next
    case (Cons c cs')
    have IH: "valid_tokens (lex ys)" if "length ys \<le> length cs'" for ys
      using Suc.IH [of ys] Suc.prems Cons that by simp
    have N: "valid_tokens None" by (simp add: valid_tokens_def)
    have A: "valid_tokens (lex cs')" by (rule IH) simp
    have B0: "valid_tokens (tok t (lex cs'))" if "valid_token t" for t
      using that A by (rule valid_tokens_tok)
    have B: "valid_tokens (tok t (lex (drop k cs')))" if "valid_token t" for t k
      using that by (rule valid_tokens_tok) (rule IH, simp)
    have vt: "valid_token LBrace" "valid_token RBrace" "valid_token LBrack" "valid_token RBrack"
      "valid_token Colon" "valid_token Comma" "valid_token TNumber" "valid_token TTrue"
      "valid_token TFalse" "valid_token TNull"
      by (simp_all add: valid_token_def)
    have S: "valid_tokens (case unquote cs' of None \<Rightarrow> None
                            | Some (s, rest) \<Rightarrow> tok (TString s) (lex rest))"
    proof (cases "unquote cs'")
      case None
      then show ?thesis using N by simp
    next
      case (Some a)
      obtain s rest where a: "a = (s, rest)" by (cases a)
      have "valid_token (TString s)"
        using unquote_valid [of cs' s rest] Some a by (simp add: valid_token_def)
      moreover have "valid_tokens (lex rest)"
        using unquote_shorter [of cs' s rest] Some a by (intro IH) simp
      ultimately show ?thesis using Some a by (simp add: valid_tokens_tok)
    qed
    have M: "valid_tokens (case scan_number (c # cs') of None \<Rightarrow> None
                            | Some rest \<Rightarrow> tok TNumber (lex rest))"
    proof (cases "scan_number (c # cs')")
      case None
      then show ?thesis using N by simp
    next
      case (Some rest)
      have "valid_tokens (lex rest)"
        using scan_number_shorter [OF Some] by (intro IH) simp
      then show ?thesis using Some vt(7) by (simp add: valid_tokens_tok)
    qed
    show ?thesis
      unfolding Cons
      by (subst lex.simps) (intro valid_tokens_if A B0 B S M N vt)
  qed
qed

lemma lex_valid: "lex cs = Some ts \<Longrightarrow> list_all valid_token ts"
  using lex_valid_aux [of cs "length cs"] by (simp add: valid_tokens_def)

lemma skip_set: "set (skip d ts) \<subseteq> set ts"
  by (induction d ts rule: skip.induct) auto

lemma after_value_set: "set (after_value ts) \<subseteq> set ts"
  by (auto simp: after_value_def split: list.splits token.splits)

lemma set_field_valid:
  "valid_product p \<Longrightarrow> ValidString s \<Longrightarrow> valid_product (set_field f s p)"
  by (cases f) (simp_all add: valid_product_def)

lemma object_valid_aux:
  "length ts \<le> n \<Longrightarrow> \<forall>s. TString s \<in> set ts \<longrightarrow> ValidString s \<Longrightarrow> valid_product p \<Longrightarrow>
   valid_product (fst (object ts (p, err)))"
proof (induction n arbitrary: ts p err)
  case 0
  then show ?case by (simp add: object.simps)
next
  case (Suc n)
  show ?case
  proof (cases "\<exists>key v rest. ts = TString key # Colon # v # rest")
    case False
    then have "object ts (p, err) = (p, err)"
      by (subst object.simps) (auto split: list.splits token.splits)
    with Suc.prems(3) show ?thesis by simp
  next
    case True
    then obtain key v rest where ts: "ts = TString key # Colon # v # rest" by blast
    have len: "length rest \<le> n" using Suc.prems(1) ts by simp
    have all: "\<forall>s. TString s \<in> set (v # rest) \<longrightarrow> ValidString s"
      using Suc.prems(2) ts by simp
    have 1: "valid_product (fst (object (after_value rest) (q, e)))" if "valid_product q" for q e
    proof (rule Suc.IH [OF _ _ that])
      show "length (after_value rest) \<le> n" using after_value_shorter [of rest] len by simp
      show "\<forall>s. TString s \<in> set (after_value rest) \<longrightarrow> ValidString s"
        using all after_value_set [of rest] by auto
    qed
    have 2: "valid_product (fst (object (after_value (skip 0 (w # rest))) (q, e)))"
      if "valid_product q" "\<forall>s. w = TString s \<longrightarrow> ValidString s" for q e w
    proof (rule Suc.IH [OF _ _ that(1)])
      have "length (skip 0 (w # rest)) \<le> length rest"
        using skip_shorter [of 0 rest] skip_shorter [of 1 rest]
        by (auto simp del: skip.simps simp add: skip.simps(2) [of 0 w rest] intro: le_trans)
      then show "length (after_value (skip 0 (w # rest))) \<le> n"
        using after_value_shorter [of "skip 0 (w # rest)"] len by simp
      have "\<forall>s. TString s \<in> set (w # rest) \<longrightarrow> ValidString s"
        using all that(2) by simp
      then show "\<forall>s. TString s \<in> set (after_value (skip 0 (w # rest))) \<longrightarrow> ValidString s"
        using after_value_set [of "skip 0 (w # rest)"] skip_set [of 0 "w # rest"] by blast
    qed
    have vs: "\<forall>s. v = TString s \<longrightarrow> ValidString s" using all by simp
    show ?thesis
    proof (cases "find_field key")
      case None
      then show ?thesis
        unfolding ts using 2 [OF Suc.prems(3) vs]
        by (subst object.simps) (simp del: skip.simps)
    next
      case (Some f)
      show ?thesis
      proof (cases v)
        case (TString s)
        then have "ValidString s" using vs by simp
        then show ?thesis
          unfolding ts using Some TString 1 [OF set_field_valid [OF Suc.prems(3)]]
          by (subst object.simps) (simp del: skip.simps)
      next
        case TNull
        then show ?thesis
          unfolding ts using Some 1 [OF Suc.prems(3)]
          by (subst object.simps) (simp del: skip.simps)
      qed (use Some 2 [OF Suc.prems(3)] in
            \<open>(subst object.simps, simp del: skip.simps add: ts)+\<close>)
    qed
  qed
qed

lemma Unmarshal_valid: "valid_product v \<Longrightarrow> valid_product (fst (Unmarshal b v))"
proof -
  assume v: "valid_product v"
  show ?thesis
  proof (cases "lex b")
    case None
    then show ?thesis using v by (simp add: Unmarshal_def)
  next
    case (Some ts)
    have "valid_product (fst (object ms (v, None)))" if "ts = LBrace # ms" for ms
    proof (rule object_valid_aux [OF le_refl _ v])
      show "\<forall>s. TString s \<in> set ms \<longrightarrow> ValidString s"
        using lex_valid [OF Some] that by (auto simp: list_all_iff valid_token_def)
    qed
    then show ?thesis
      using v Some by (auto simp: Unmarshal_def split: list.splits token.splits)
  qed
qed

lemma valid_zero: "valid_product zero_ProductEntity"
  by (simp add: valid_product_def zero_ProductEntity_def ValidString.simps(1))

lemma decode_valid: "valid_product (decode b)"
  unfolding decode_def by (rule Unmarshal_valid [OF valid_zero])

lemma RetrieveProduct_Inr:
  "RetrieveProduct c pid = Inr p \<longleftrightarrow>
     (\<exists>b. GetState c pid = Inr (Some b) \<and> Unmarshal b zero_ProductEntity = (p, None))"
  by (auto simp: RetrieveProduct_def split: sum.splits option.splits prod.splits)

lemma RetrieveProduct_valid:
  assumes "RetrieveProduct c pid = Inr p"
  shows "valid_product p"
proof -
  from assms obtain b where "Unmarshal b zero_ProductEntity = (p, None)"
    unfolding RetrieveProduct_Inr by blast
  then have "p = fst (Unmarshal b zero_ProductEntity)" by simp
  then show ?thesis using Unmarshal_valid [OF valid_zero] by simp
qed

section \<open>Modification of a product stored under its own ID\<close>

text \<open>
  When the product decoded from the value under an ID carries that ID, \<^verbatim>\<open>ModifyProduct\<close>
  writes under the ID it was called with, and \<^verbatim>\<open>RetrieveProduct\<close> then reads back what
  was written.
\<close>

lemma RetrieveProduct_after_save:
  assumes "get_fault c k = None"
  shows "RetrieveProduct (c\<lparr>state := AList.update k (wire q) (state c)\<rparr>) k = Inr (coerce_product q)"
  using RetrieveProduct_wire [OF GetState_after_put [OF assms]] .

lemma fetch_tx:
  "tx_timestamp c = Inr ts \<Longrightarrow> fetchTransactionTimestamp c = Inr (rfc3339 c ts)"
  by (simp add: fetchTransactionTimestamp_def GetTxTimestamp_def)

lemma ModifyProduct_keyed:
  assumes "RetrieveProduct c pid = Inr p" and "ProductID p = pid" and "tx_timestamp c = Inr ts"
  shows "ModifyProduct c pid status owner description category =
     saveProduct c (spec_merge p status owner description category (rfc3339 c ts))"
    and "ProductID (spec_merge p status owner description category (rfc3339 c ts)) = pid"
    and "get_fault c pid = None"
proof -
  from assms(1) obtain b where b: "GetState c pid = Inr (Some b)"
    "Unmarshal b zero_ProductEntity = (p, None)"
    unfolding RetrieveProduct_Inr by blast
  show "ModifyProduct c pid status owner description category =
     saveProduct c (spec_merge p status owner description category (rfc3339 c ts))"
    using ModifyProduct_present [OF b(1) fetch_tx [OF assms(3)]] b(2) by simp
  show "ProductID (spec_merge p status owner description category (rfc3339 c ts)) = pid"
    using assms(2) by (simp add: spec_merge_def)
  show "get_fault c pid = None" using b(1) by (rule GetState_no_fault)
qed

lemma ModifyProduct_keyed_result:
  assumes "RetrieveProduct c pid = Inr p" and "ProductID p = pid" and "tx_timestamp c = Inr ts"
    and "ModifyProduct c pid status owner description category = (None, c')"
  shows "c' = c\<lparr>state := AList.update pid
           (wire (spec_merge p status owner description category (rfc3339 c ts))) (state c)\<rparr>"
proof -
  let ?q = "spec_merge p status owner description category (rfc3339 c ts)"
  note K = ModifyProduct_keyed [OF assms(1,2,3)]
  have s: "saveProduct c ?q = (None, c')" using K(1) assms(4) by simp
  show ?thesis
  proof (cases "put_fault c (ProductID ?q)")
    case None
    from saveProduct_ok [OF None] s show ?thesis by (simp add: K(2))
  next
    case (Some e)
    from saveProduct_fault [OF Some] s show ?thesis by simp
  qed
qed

lemma ModifyProduct_keyed_ok:
  assumes "RetrieveProduct c pid = Inr p" and "ProductID p = pid" and "tx_timestamp c = Inr ts"
    and "put_fault c pid = None"
  shows "ModifyProduct c pid status owner description category =
     (None, c\<lparr>state := AList.update pid
           (wire (spec_merge p status owner description category (rfc3339 c ts))) (state c)\<rparr>)"
proof -
  let ?q = "spec_merge p status owner description category (rfc3339 c ts)"
  note K = ModifyProduct_keyed [OF assms(1,2,3)]
  have "put_fault c (ProductID ?q) = None" using assms(4) by (simp add: K(2))
  from saveProduct_ok [OF this] show ?thesis by (simp add: K(1,2))
qed

text \<open>
  Every product of a ledger built from the empty one by operations that register valid
  UTF-8 IDs only carries the ID it is stored under.
\<close>

lemma run_keyed:
  assumes "state c = []"
    and "list_all (\<lambda>(ts, op). ValidString (rfc3339 c ts) \<and> registers_valid op) ops"
    and "RetrieveProduct (run c ops) pid = Inr p"
  shows "ProductID p = pid"
proof -
  let ?le = "\<lambda>(x :: string) (y :: string). True"
  have ok: "ledger_ok ?le [] c" using assms(1) by (simp add: ledger_ok_def)
  have o: "reflp ?le" "transp ?le" by (simp_all add: reflp_def transp_def)
  have s: "sorted_wrt ?le ([] # rendered c ops)" by (simp add: sorted_wrt_iff_nth_less)
  have a: "\<forall>(ts, op) \<in> set ops. ValidString (rfc3339 c ts) \<and> registers_valid op"
    using assms(2) by (simp add: list_all_iff)
  from run_ok [OF ok o s a]
  have L: "ledger_ok ?le (last ([] # rendered c ops)) (run c ops)" by blast
  from assms(3) obtain b where b: "GetState (run c ops) pid = Inr (Some b)"
    "Unmarshal b zero_ProductEntity = (p, None)"
    unfolding RetrieveProduct_Inr by blast
  from b(1) have "map_of (state (run c ops)) pid = Some b"
    by (auto simp: GetState_def split: option.splits)
  with L obtain q where q: "b = wire q" "ProductID q = pid" "ValidString pid"
    unfolding ledger_ok_def by blast
  have "p = coerce_product q"
    using b(2) Unmarshal_Marshal [OF Marshal_wire, of q zero_ProductEntity] by (simp add: q(1))
  then show ?thesis using q(2,3) by (simp add: coerce_product_def ValidString_coerce)
qed

section \<open>The example ledgers, evaluated\<close>

lemma ctx_p1_eq:
  "ctx_p1 = ctx_clock\<lparr>tx_timestamp := Inr (at_second 2),
     state := [(''p1'',
       wire \<lparr>ProductID = ''p1'', ProductName = ''Widget'', ProductStatus = ''Manufactured'',
             CurrentOwner = ''Acme'', CreatedDate = ''2024-06-01T12:00:01Z'',
             UpdatedDate = ''2024-06-01T12:00:01Z'', ProductCategory = ''cat'',
             ProductDescription = ''desc''\<rparr>)]\<rparr>"
proof -
  let ?w = "\<lparr>ProductID = ''p1'', ProductName = ''Widget'', ProductStatus = ''Manufactured'',
             CurrentOwner = ''Acme'', CreatedDate = ''2024-06-01T12:00:01Z'',
             UpdatedDate = ''2024-06-01T12:00:01Z'', ProductCategory = ''cat'',
             ProductDescription = ''desc''\<rparr>"
  let ?c1 = "ctx_clock\<lparr>tx_timestamp := Inr (at_second 1), state := [(''p1'', wire ?w)]\<rparr>"
  have e1: "snd (exec (ctx_clock\<lparr>tx_timestamp := Inr (at_second 1)\<rparr>)
      (Register ''p1'' ''Widget'' ''Acme'' ''desc'' ''cat'')) = ?c1"
    by (simp add: RegisterProduct_eval [where ts = "at_second 1"] ctx_clock_def ctx0_def clock_def
        at_second_def)
  have t1: "take 1 ops_ok = [(at_second 1, Register ''p1'' ''Widget'' ''Acme'' ''desc'' ''cat'')]"
    by (simp add: ops_ok_def)
  have r1: "run ctx_clock (take 1 ops_ok) = ?c1"
    by (simp only: t1 run.simps e1)
  show ?thesis unfolding ctx_p1_def r1 by simp
qed

lemma ctx_p1_facts:
  "RetrieveProduct ctx_p1 ''p1'' =
     Inr \<lparr>ProductID = ''p1'', ProductName = ''Widget'', ProductStatus = ''Manufactured'',
          CurrentOwner = ''Acme'', CreatedDate = ''2024-06-01T12:00:01Z'',
          UpdatedDate = ''2024-06-01T12:00:01Z'', ProductCategory = ''cat'',
          ProductDescription = ''desc''\<rparr>"
  "tx_timestamp ctx_p1 = Inr (at_second 2)"
  "put_fault ctx_p1 k = None"
  "rfc3339 ctx_p1 (at_second 2) = ''2024-06-01T12:00:02Z''"
proof -
  let ?w = "\<lparr>ProductID = ''p1'', ProductName = ''Widget'', ProductStatus = ''Manufactured'',
             CurrentOwner = ''Acme'', CreatedDate = ''2024-06-01T12:00:01Z'',
             UpdatedDate = ''2024-06-01T12:00:01Z'', ProductCategory = ''cat'',
             ProductDescription = ''desc''\<rparr>"
  have g: "GetState ctx_p1 ''p1'' = Inr (Some (wire ?w))"
    unfolding ctx_p1_eq by (simp add: GetState_def ctx_clock_def ctx0_def)
  have v: "coerce_product ?w = ?w" by (simp add: coerce_product_def coerce_utf8_ascii)
  show "RetrieveProduct ctx_p1 ''p1'' = Inr ?w"
    using RetrieveProduct_wire [OF g] by (simp add: v)
  show "tx_timestamp ctx_p1 = Inr (at_second 2)" unfolding ctx_p1_eq by simp
  show "put_fault ctx_p1 k = None" unfolding ctx_p1_eq by (simp add: ctx_clock_def ctx0_def)
  show "rfc3339 ctx_p1 (at_second 2) = ''2024-06-01T12:00:02Z''"
    unfolding ctx_p1_eq by (simp add: ctx_clock_def clock_def at_second_def)
qed

lemma ctx_ff_eq:
  "ctx_ff = ctx_clock\<lparr>tx_timestamp := Inr (at_second 3),
     state :=
       [([CHR 0xEF, CHR 0xBF, CHR 0xBD],
         wire \<lparr>ProductID = [CHR 0xEF, CHR 0xBF, CHR 0xBD], ProductName = ''A'',
               ProductStatus = ''Manufactured'', CurrentOwner = ''Acme'',
               CreatedDate = ''2024-06-01T12:00:01Z'', UpdatedDate = ''2024-06-01T12:00:01Z'',
               ProductCategory = ''k'', ProductDescription = ''d''\<rparr>),
        ([CHR 0xFF],
         wire \<lparr>ProductID = [CHR 0xFF], ProductName = ''B'', ProductStatus = ''Manufactured'',
               CurrentOwner = ''Bob'', CreatedDate = ''2024-06-01T12:00:02Z'',
               UpdatedDate = ''2024-06-01T12:00:02Z'', ProductCategory = ''k'',
               ProductDescription = ''d''\<rparr>)]\<rparr>"
proof -
  let ?k1 = "[CHR 0xEF, CHR 0xBF, CHR 0xBD]"
  let ?k2 = "[CHR 0xFF]"
  let ?r1 = "\<lparr>ProductID = ?k1, ProductName = ''A'', ProductStatus = ''Manufactured'',
              CurrentOwner = ''Acme'', CreatedDate = ''2024-06-01T12:00:01Z'',
              UpdatedDate = ''2024-06-01T12:00:01Z'',
              ProductCategory = ''k'', ProductDescription = ''d''\<rparr>"
  let ?r2 = "\<lparr>ProductID = ?k2, ProductName = ''B'', ProductStatus = ''Manufactured'',
              CurrentOwner = ''Bob'', CreatedDate = ''2024-06-01T12:00:02Z'',
              UpdatedDate = ''2024-06-01T12:00:02Z'',
              ProductCategory = ''k'', ProductDescription = ''d''\<rparr>"
  let ?c1 = "ctx_clock\<lparr>tx_timestamp := Inr (at_second 1), state := [(?k1, wire ?r1)]\<rparr>"
  let ?c2 = "ctx_clock\<lparr>tx_timestamp := Inr (at_second 2),
      state := [(?k1, wire ?r1), (?k2, wire ?r2)]\<rparr>"
  have e1: "snd (exec (ctx_clock\<lparr>tx_timestamp := Inr (at_second 1)\<rparr>)
      (Register ?k1 ''A'' ''Acme'' ''d'' ''k'')) = ?c1"
    by (simp add: RegisterProduct_eval [where ts = "at_second 1"] ctx_clock_def ctx0_def clock_def
        at_second_def)
  have e2: "snd (exec (?c1\<lparr>tx_timestamp := Inr (at_second 2)\<rparr>)
      (Register ?k2 ''B'' ''Bob'' ''d'' ''k'')) = ?c2"
    by (simp add: RegisterProduct_eval [where ts = "at_second 2"] ctx_clock_def ctx0_def clock_def
        at_second_def)
  have t2: "take 2 ops_bad = [(at_second 1, Register ?k1 ''A'' ''Acme'' ''d'' ''k''),
      (at_second 2, Register ?k2 ''B'' ''Bob'' ''d'' ''k'')]"
    by (simp add: ops_bad_def numeral_2_eq_2)
  have r2: "run ctx_clock (take 2 ops_bad) = ?c2"
    by (simp only: t2 run.simps e1 e2)
  show ?thesis unfolding ctx_ff_def r2 by simp
qed

lemma ctx_ff_facts:
  "RetrieveProduct ctx_ff [CHR 0xFF] =
     Inr \<lparr>ProductID = [CHR 0xEF, CHR 0xBF, CHR 0xBD], ProductName = ''B'',
          ProductStatus = ''Manufactured'', CurrentOwner = ''Bob'',
          CreatedDate = ''2024-06-01T12:00:02Z'', UpdatedDate = ''2024-06-01T12:00:02Z'',
          ProductCategory = ''k'', ProductDescription = ''d''\<rparr>"
  "fetchTransactionTimestamp ctx_ff = Inr ''2024-06-01T12:00:03Z''"
  "fst (ModifyProduct ctx_ff [CHR 0xFF] status owner description category) = None"
  "RetrieveProduct (snd (ModifyProduct ctx_ff [CHR 0xFF] status owner description category))
     [CHR 0xFF] =
     Inr \<lparr>ProductID = [CHR 0xEF, CHR 0xBF, CHR 0xBD], ProductName = ''B'',
          ProductStatus = ''Manufactured'', CurrentOwner = ''Bob'',
          CreatedDate = ''2024-06-01T12:00:02Z'', UpdatedDate = ''2024-06-01T12:00:02Z'',
          ProductCategory = ''k'', ProductDescription = ''d''\<rparr>"
proof -
  let ?k1 = "[CHR 0xEF, CHR 0xBF, CHR 0xBD]"
  let ?k2 = "[CHR 0xFF]"
  let ?r2 = "\<lparr>ProductID = ?k2, ProductName = ''B'', ProductStatus = ''Manufactured'',
              CurrentOwner = ''Bob'', CreatedDate = ''2024-06-01T12:00:02Z'',
              UpdatedDate = ''2024-06-01T12:00:02Z'',
              ProductCategory = ''k'', ProductDescription = ''d''\<rparr>"
  have m: "map_of (state ctx_ff) ?k2 = Some (wire ?r2)"
    unfolding ctx_ff_eq by simp
  have gf: "get_fault ctx_ff k = None" and pf: "put_fault ctx_ff k = None" for k
    unfolding ctx_ff_eq by (simp_all add: ctx_clock_def ctx0_def)
  have tx: "tx_timestamp ctx_ff = Inr (at_second 3)" unfolding ctx_ff_eq by simp
  have g: "GetState ctx_ff ?k2 = Inr (Some (wire ?r2))"
    by (simp add: GetState_def gf m)
  have c: "coerce_product ?r2 = ?r2\<lparr>ProductID := ?k1\<rparr>"
    by (simp add: coerce_product_def coerce_FFFD coerce_utf8_ascii)
  show 1: "RetrieveProduct ctx_ff ?k2 = Inr \<lparr>ProductID = ?k1, ProductName = ''B'',
          ProductStatus = ''Manufactured'', CurrentOwner = ''Bob'',
          CreatedDate = ''2024-06-01T12:00:02Z'', UpdatedDate = ''2024-06-01T12:00:02Z'',
          ProductCategory = ''k'', ProductDescription = ''d''\<rparr>"
    using RetrieveProduct_wire [OF g] by (simp add: c)
  show "fetchTransactionTimestamp ctx_ff = Inr ''2024-06-01T12:00:03Z''"
    using fetch_tx [OF tx] unfolding ctx_ff_eq by (simp add: ctx_clock_def clock_def at_second_def)
  note M = ModifyProduct_eval [OF m gf pf tx, of status owner description category]
  show "fst (ModifyProduct ctx_ff ?k2 status owner description category) = None"
    by (simp add: M)
  have "GetState (snd (ModifyProduct ctx_ff ?k2 status owner description category)) ?k2
      = Inr (Some (wire ?r2))"
    by (simp add: M GetState_def gf m coerce_FFFD update_conv')
  from RetrieveProduct_wire [OF this]
  show "RetrieveProduct (snd (ModifyProduct ctx_ff ?k2 status owner description category)) ?k2
      = Inr \<lparr>ProductID = ?k1, ProductName = ''B'',
          ProductStatus = ''Manufactured'', CurrentOwner = ''Bob'',
          CreatedDate = ''2024-06-01T12:00:02Z'', UpdatedDate = ''2024-06-01T12:00:02Z'',
          ProductCategory = ''k'', ProductDescription = ''d''\<rparr>"
    by (simp add: c)
qed

section \<open>C1: registration is refused for a key that is present\<close>

text \<open>
  C1. When \<^verbatim>\<open>GetState\<close> returns bytes for the ID, \<^verbatim>\<open>RegisterProduct\<close> returns the
  "already exists" error, of kind \<open>AlreadyExists\<close>, and the context it leaves is the
  context it was given: nothing is written. In particular, in the context a successful
  registration of an ID leaves (and in every context with the same ledger in which
  \<^verbatim>\<open>GetState\<close> of the ID does not fail) a registration of the same ID is refused.
\<close>

theorem RegisterProduct_present:
  "(GetState c pid = Inr (Some b) \<longrightarrow>
      RegisterProduct c pid name owner description category = (Some (AlreadyExistsErr pid), c)) \<and>
   (RegisterProduct c pid name owner description category = (None, c') \<and>
    state c2 = state c' \<and> get_fault c2 pid = None \<longrightarrow>
      RegisterProduct c2 pid name' owner' description' category'
        = (Some (AlreadyExistsErr pid), c2)) \<and>
   kind (AlreadyExistsErr pid) = AlreadyExists"
proof (intro conjI impI)
  assume "GetState c pid = Inr (Some b)"
  then show "RegisterProduct c pid name owner description category
      = (Some (AlreadyExistsErr pid), c)"
    by (simp add: RegisterProduct_def CheckProductExistence_def)
next
  assume a: "RegisterProduct c pid name owner description category = (None, c') \<and>
    state c2 = state c' \<and> get_fault c2 pid = None"
  then have "map_of (state c') pid \<noteq> None"
    by (auto simp: RegisterProduct_def update_conv'
        split: sum.splits if_splits dest!: saveProduct_cases)
  with a show "RegisterProduct c2 pid name' owner' description' category'
      = (Some (AlreadyExistsErr pid), c2)"
    by (auto simp: RegisterProduct_def CheckProductExistence_def GetState_def)
qed simp

theorem RegisterProduct_present_witness:
  "GetState (ctx_of [(''p1'', ''{}'')]) ''p1'' = Inr (Some ''{}'') \<and>
   RegisterProduct (ctx_of [(''p1'', ''{}'')]) ''p1'' ''n'' ''o'' ''d'' ''k''
     = (Some (AlreadyExistsErr ''p1''), ctx_of [(''p1'', ''{}'')]) \<and>
   fst (RegisterProduct ctx0 ''p1'' ''n'' ''o'' ''d'' ''k'') = None \<and>
   RegisterProduct (snd (RegisterProduct ctx0 ''p1'' ''n'' ''o'' ''d'' ''k'')) ''p1'' ''n2'' ''o2'' ''d2'' ''k2''
     = (Some (AlreadyExistsErr ''p1''), snd (RegisterProduct ctx0 ''p1'' ''n'' ''o'' ''d'' ''k''))"
proof -
  let ?c1 = "ctx_of [(''p1'', ''{}'')]"
  let ?r = "RegisterProduct ctx0 ''p1'' ''n'' ''o'' ''d'' ''k''"
  have g: "GetState ?c1 ''p1'' = Inr (Some ''{}'')"
    by (simp add: GetState_def ctx_of_def ctx0_def)
  have ok: "fst ?r = None"
    by (simp add: RegisterProduct_def CheckProductExistence_def GetState_def ctx0_def
        fetchTransactionTimestamp_def GetTxTimestamp_def saveProduct_def PutState_def Marshal_def)
  have f: "get_fault (snd ?r) ''p1'' = None"
    by (simp add: RegisterProduct_def CheckProductExistence_def GetState_def ctx0_def
        fetchTransactionTimestamp_def GetTxTimestamp_def saveProduct_def PutState_def Marshal_def)
  have r: "?r = (None, snd ?r)"
    using ok by (simp add: prod_eq_iff)
  from RegisterProduct_present [of ?c1 "''p1''" "''{}''" "''n''" "''o''" "''d''" "''k''"] g
  have 1: "RegisterProduct ?c1 ''p1'' ''n'' ''o'' ''d'' ''k'' = (Some (AlreadyExistsErr ''p1''), ?c1)"
    by blast
  from RegisterProduct_present [of ctx0 "''p1''" _ "''n''" "''o''" "''d''" "''k''" "snd ?r" "snd ?r"
      "''n2''" "''o2''" "''d2''" "''k2''"] r f
  have 2: "RegisterProduct (snd ?r) ''p1'' ''n2'' ''o2'' ''d2'' ''k2''
     = (Some (AlreadyExistsErr ''p1''), snd ?r)"
    by blast
  from g 1 ok 2 show ?thesis by blast
qed

section \<open>C2: operations on a key that is absent\<close>

text \<open>
  C2. When \<^verbatim>\<open>GetState\<close> returns no bytes for the ID (and no error),
  \<^verbatim>\<open>RetrieveProduct\<close> fails with its "not found" error, \<^verbatim>\<open>CheckProductExistence\<close>
  returns false without an error, and \<^verbatim>\<open>ModifyProduct\<close> and \<^verbatim>\<open>TransferOwnership\<close> fail
  with the "does not exist" error and leave the context as it was. Both errors are of the
  kind \<open>NotFound\<close>. The two queries return no context: they cannot write.
\<close>

theorem absent_key_not_found:
  assumes "GetState c pid = Inr None"
  shows "RetrieveProduct c pid = Inl (NotFoundErr pid) \<and>
         CheckProductExistence c pid = Inr False \<and>
         ModifyProduct c pid status owner description category = (Some (DoesNotExistErr pid), c) \<and>
         TransferOwnership c pid newOwner = (Some (DoesNotExistErr pid), c) \<and>
         kind (NotFoundErr pid) = NotFound \<and> kind (DoesNotExistErr pid) = NotFound"
  using assms
  by (simp add: RetrieveProduct_def CheckProductExistence_def ModifyProduct_def
      TransferOwnership_def)

theorem absent_key_not_found_witness:
  "GetState ctx0 ''p9'' = Inr None \<and>
   RetrieveProduct ctx0 ''p9'' = Inl (NotFoundErr ''p9'') \<and>
   CheckProductExistence ctx0 ''p9'' = Inr False \<and>
   ModifyProduct ctx0 ''p9'' ''Shipped'' ''Acme'' ''d'' ''k'' = (Some (DoesNotExistErr ''p9''), ctx0) \<and>
   TransferOwnership ctx0 ''p9'' ''Bob'' = (Some (DoesNotExistErr ''p9''), ctx0)"
proof -
  have g: "GetState ctx0 ''p9'' = Inr None"
    by (simp add: GetState_def ctx0_def)
  from absent_key_not_found [OF g, of "''Shipped''" "''Acme''" "''d''" "''k''" "''Bob''"] g
  show ?thesis by simp
qed

section \<open>C3: the merge rule of modification\<close>

text \<open>
  C3, as amended. Take an ID under which \<^verbatim>\<open>RetrieveProduct\<close> finds a product \<open>p\<close> that
  carries this ID (as every product does in a ledger built from the empty one by
  operations that register valid UTF-8 IDs only, lemma \<open>run_keyed\<close>), and a call of
  \<^verbatim>\<open>ModifyProduct\<close> for it whose four proposed values are valid UTF-8, in a context
  whose clock and whose \<^verbatim>\<open>PutState\<close> do not fail. The call succeeds, and the product
  then retrieved under the ID has each of status, owner, description and category equal
  to the proposed value when that is not the empty string and equal to the value of \<open>p\<close>
  when it is; its ID and its name are those of \<open>p\<close>.
\<close>

theorem ModifyProduct_merge:
  assumes "RetrieveProduct c pid = Inr p" and "ProductID p = pid"
    and "ValidString status" and "ValidString owner"
    and "ValidString description" and "ValidString category"
    and "tx_timestamp c = Inr ts" and "put_fault c pid = None"
  shows "\<exists>c' p'. ModifyProduct c pid status owner description category = (None, c') \<and>
           RetrieveProduct c' pid = Inr p' \<and>
           ProductStatus p' = (if status = [] then ProductStatus p else status) \<and>
           CurrentOwner p' = (if owner = [] then CurrentOwner p else owner) \<and>
           ProductDescription p' =
             (if description = [] then ProductDescription p else description) \<and>
           ProductCategory p' = (if category = [] then ProductCategory p else category) \<and>
           ProductID p' = ProductID p \<and> ProductName p' = ProductName p"
proof -
  let ?q = "spec_merge p status owner description category (rfc3339 c ts)"
  let ?c' = "c\<lparr>state := AList.update pid (wire ?q) (state c)\<rparr>"
  have m: "ModifyProduct c pid status owner description category = (None, ?c')"
    by (rule ModifyProduct_keyed_ok [OF assms(1,2,7,8)])
  have r: "RetrieveProduct ?c' pid = Inr (coerce_product ?q)"
    by (rule RetrieveProduct_after_save [OF ModifyProduct_keyed(3) [OF assms(1,2,7)]])
  have v: "ValidString (ProductStatus p)" "ValidString (CurrentOwner p)"
    "ValidString (ProductDescription p)" "ValidString (ProductCategory p)"
    "ValidString (ProductID p)" "ValidString (ProductName p)"
    using RetrieveProduct_valid [OF assms(1)] by (simp_all add: valid_product_def)
  have "ProductStatus (coerce_product ?q) = (if status = [] then ProductStatus p else status)"
    "CurrentOwner (coerce_product ?q) = (if owner = [] then CurrentOwner p else owner)"
    "ProductDescription (coerce_product ?q) =
       (if description = [] then ProductDescription p else description)"
    "ProductCategory (coerce_product ?q) = (if category = [] then ProductCategory p else category)"
    "ProductID (coerce_product ?q) = ProductID p" "ProductName (coerce_product ?q) = ProductName p"
    using v assms(3-6) by (simp_all add: coerce_product_def spec_merge_def ValidString_coerce)
  with m r show ?thesis by blast
qed

theorem ModifyProduct_merge_witness:
  "RetrieveProduct ctx_p1 ''p1'' =
     Inr \<lparr>ProductID = ''p1'', ProductName = ''Widget'', ProductStatus = ''Manufactured'',
          CurrentOwner = ''Acme'', CreatedDate = ''2024-06-01T12:00:01Z'',
          UpdatedDate = ''2024-06-01T12:00:01Z'', ProductCategory = ''cat'',
          ProductDescription = ''desc''\<rparr> \<and>
   ValidString ''Shipped'' \<and> ValidString [] \<and> ValidString ''new'' \<and> ValidString ''tools'' \<and>
   tx_timestamp ctx_p1 = Inr (at_second 2) \<and> put_fault ctx_p1 ''p1'' = None \<and>
   fst (ModifyProduct ctx_p1 ''p1'' ''Shipped'' [] ''new'' ''tools'') = None \<and>
   (\<exists>p'. RetrieveProduct (snd (ModifyProduct ctx_p1 ''p1'' ''Shipped'' [] ''new'' ''tools'')) ''p1''
           = Inr p' \<and>
         ProductStatus p' = ''Shipped'' \<and> CurrentOwner p' = ''Acme'' \<and>
         ProductDescription p' = ''new'' \<and> ProductCategory p' = ''tools'' \<and>
         ProductID p' = ''p1'' \<and> ProductName p' = ''Widget'')"
proof -
  have v: "ValidString ''Shipped''" "ValidString []" "ValidString ''new''" "ValidString ''tools''"
    by (simp_all add: ValidString_ascii)
  from ModifyProduct_merge [OF ctx_p1_facts(1) _ v ctx_p1_facts(2,3)]
  obtain c' p' where m: "ModifyProduct ctx_p1 ''p1'' ''Shipped'' [] ''new'' ''tools'' = (None, c')"
    and r: "RetrieveProduct c' ''p1'' = Inr p'"
    and f: "ProductStatus p' = ''Shipped''" "CurrentOwner p' = ''Acme''"
      "ProductDescription p' = ''new''" "ProductCategory p' = ''tools''"
      "ProductID p' = ''p1''" "ProductName p' = ''Widget''"
    by auto
  from m r f have "\<exists>p'. RetrieveProduct (snd (ModifyProduct ctx_p1 ''p1'' ''Shipped'' [] ''new''
        ''tools'')) ''p1'' = Inr p' \<and>
         ProductStatus p' = ''Shipped'' \<and> CurrentOwner p' = ''Acme'' \<and>
         ProductDescription p' = ''new'' \<and> ProductCategory p' = ''tools'' \<and>
         ProductID p' = ''p1'' \<and> ProductName p' = ''Widget''"
    by simp
  with m v ctx_p1_facts(1,2,3) show ?thesis by simp
qed

text \<open>
  C3 as stated, for every present record and every call, fails in two ways. A product
  registered under the byte \<^verbatim>\<open>0xFF\<close> is stored with the ID U+FFFD in its value: a
  modification of it succeeds and writes under the key U+FFFD, and the product under
  \<^verbatim>\<open>0xFF\<close> keeps the status \<^verbatim>\<open>Manufactured\<close>. And a proposed status that is the byte
  \<^verbatim>\<open>0xFF\<close> is stored coerced: the status read back is U+FFFD, neither the proposed value
  nor the one before.
\<close>

theorem ModifyProduct_merge_counterexample:
  "RetrieveProduct ctx_ff [CHR 0xFF] =
     Inr \<lparr>ProductID = [CHR 0xEF, CHR 0xBF, CHR 0xBD], ProductName = ''B'',
          ProductStatus = ''Manufactured'', CurrentOwner = ''Bob'',
          CreatedDate = ''2024-06-01T12:00:02Z'', UpdatedDate = ''2024-06-01T12:00:02Z'',
          ProductCategory = ''k'', ProductDescription = ''d''\<rparr> \<and>
   fst (ModifyProduct ctx_ff [CHR 0xFF] ''Shipped'' [] [] []) = None \<and>
   RetrieveProduct (snd (ModifyProduct ctx_ff [CHR 0xFF] ''Shipped'' [] [] [])) [CHR 0xFF] =
     Inr \<lparr>ProductID = [CHR 0xEF, CHR 0xBF, CHR 0xBD], ProductName = ''B'',
          ProductStatus = ''Manufactured'', CurrentOwner = ''Bob'',
          CreatedDate = ''2024-06-01T12:00:02Z'', UpdatedDate = ''2024-06-01T12:00:02Z'',
          ProductCategory = ''k'', ProductDescription = ''d''\<rparr> \<and>
   fst (ModifyProduct ctx_p1 ''p1'' [CHR 0xFF] [] [] []) = None \<and>
   RetrieveProduct (snd (ModifyProduct ctx_p1 ''p1'' [CHR 0xFF] [] [] [])) ''p1'' =
     Inr \<lparr>ProductID = ''p1'', ProductName = ''Widget'',
          ProductStatus = [CHR 0xEF, CHR 0xBF, CHR 0xBD], CurrentOwner = ''Acme'',
          CreatedDate = ''2024-06-01T12:00:01Z'', UpdatedDate = ''2024-06-01T12:00:02Z'',
          ProductCategory = ''cat'', ProductDescription = ''desc''\<rparr>"
proof -
  let ?w = "\<lparr>ProductID = ''p1'', ProductName = ''Widget'', ProductStatus = ''Manufactured'',
             CurrentOwner = ''Acme'', CreatedDate = ''2024-06-01T12:00:01Z'',
             UpdatedDate = ''2024-06-01T12:00:01Z'', ProductCategory = ''cat'',
             ProductDescription = ''desc''\<rparr>"
  let ?q = "spec_merge ?w [CHR 0xFF] [] [] [] (rfc3339 ctx_p1 (at_second 2))"
  have i: "ProductID ?w = ''p1''" by simp
  have m: "ModifyProduct ctx_p1 ''p1'' [CHR 0xFF] [] [] [] =
      (None, ctx_p1\<lparr>state := AList.update ''p1'' (wire ?q) (state ctx_p1)\<rparr>)"
    by (rule ModifyProduct_keyed_ok [OF ctx_p1_facts(1) i ctx_p1_facts(2,3)])
  have r: "RetrieveProduct (ctx_p1\<lparr>state := AList.update ''p1'' (wire ?q) (state ctx_p1)\<rparr>) ''p1''
      = Inr (coerce_product ?q)"
    by (rule RetrieveProduct_after_save
          [OF ModifyProduct_keyed(3) [OF ctx_p1_facts(1) i ctx_p1_facts(2)]])
  have c: "coerce_product ?q =
      \<lparr>ProductID = ''p1'', ProductName = ''Widget'',
          ProductStatus = [CHR 0xEF, CHR 0xBF, CHR 0xBD], CurrentOwner = ''Acme'',
          CreatedDate = ''2024-06-01T12:00:01Z'', UpdatedDate = ''2024-06-01T12:00:02Z'',
          ProductCategory = ''cat'', ProductDescription = ''desc''\<rparr>"
    by (simp add: ctx_p1_facts(4) spec_merge_def coerce_product_def coerce_FFFD coerce_utf8_ascii)
  from m r show ?thesis
    by (simp add: ctx_ff_facts(1,3,4) c)
qed

section \<open>C4: transfer of ownership is a modification\<close>

text \<open>
  C4. \<^verbatim>\<open>TransferOwnership\<close> has no code of its own: for every context (ledger,
  faults and transaction time), ID and owner, its error and the context it leaves are
  those of \<^verbatim>\<open>ModifyProduct\<close> called with the owner and three empty strings.
\<close>

theorem TransferOwnership_eq_ModifyProduct:
  "TransferOwnership c pid x = ModifyProduct c pid [] x [] []"
  by (simp add: TransferOwnership_def)

section \<open>C5: modification of a value that does not decode\<close>

text \<open>
  C5. The claim does not hold of the code. The value stored under \<^verbatim>\<open>p1\<close> below is
  JSON whose \<^verbatim>\<open>product_status\<close> is a number: \<^verbatim>\<open>json.Unmarshal\<close> reports a type error
  and \<^verbatim>\<open>RetrieveProduct\<close> returns it, but \<^verbatim>\<open>ModifyProduct\<close> drops it, goes on with the
  partly filled struct and overwrites the value with a record whose name, status, owner,
  creation date, category and description are empty.
\<close>

theorem ModifyProduct_malformed:
  "RetrieveProduct ctx_malformed ''p1'' = Inl (JsonErr UnmarshalTypeError) \<and>
   kind (JsonErr UnmarshalTypeError) = SerializationFailure \<and>
   fst (ModifyProduct ctx_malformed ''p1'' [] [] [] []) = None \<and>
   RetrieveProduct (snd (ModifyProduct ctx_malformed ''p1'' [] [] [] [])) ''p1''
     = Inr \<lparr>ProductID = ''p1'', ProductName = [], ProductStatus = [], CurrentOwner = [],
            CreatedDate = [], UpdatedDate = ''2024-06-01T12:00:00Z'', ProductCategory = [],
            ProductDescription = []\<rparr>"
proof -
  have g: "GetState ctx_malformed ''p1'' = Inr (Some malformed)"
    by (simp add: ctx_malformed_def ctx_of_def ctx0_def GetState_def)
  have f: "fetchTransactionTimestamp ctx_malformed = Inr ''2024-06-01T12:00:00Z''"
    by (simp add: ctx_malformed_def ctx_of_def ctx0_def fetchTransactionTimestamp_def
        GetTxTimestamp_def)
  have p: "put_fault ctx_malformed k = None" for k
    by (simp add: ctx_malformed_def ctx_of_def ctx0_def)
  let ?p' = "\<lparr>ProductID = ''p1'', ProductName = [], ProductStatus = [], CurrentOwner = [],
            CreatedDate = [], UpdatedDate = ''2024-06-01T12:00:00Z'', ProductCategory = [],
            ProductDescription = []\<rparr>"
  have r: "RetrieveProduct ctx_malformed ''p1'' = Inl (JsonErr UnmarshalTypeError)"
    using g by (simp add: RetrieveProduct_def Unmarshal_malformed)
  have m: "ModifyProduct ctx_malformed ''p1'' [] [] [] []
      = (None, ctx_malformed\<lparr>state := AList.update ''p1'' (wire ?p') (state ctx_malformed)\<rparr>)"
  proof -
    have "ModifyProduct ctx_malformed ''p1'' [] [] [] []
        = saveProduct ctx_malformed
            (spec_merge (zero_ProductEntity\<lparr>ProductID := ''p1''\<rparr>) [] [] [] []
               ''2024-06-01T12:00:00Z'')"
      using ModifyProduct_present [OF g f, of "[]" "[]" "[]" "[]"]
      by (simp add: Unmarshal_malformed)
    moreover have "spec_merge (zero_ProductEntity\<lparr>ProductID := ''p1''\<rparr>) [] [] [] []
               ''2024-06-01T12:00:00Z'' = ?p'"
      by (simp add: spec_merge_def zero_ProductEntity_def)
    ultimately show ?thesis
      using saveProduct_ok [of ctx_malformed ?p'] by (simp add: p)
  qed
  have v: "coerce_product ?p' = ?p'"
    by (simp add: coerce_product_def coerce_utf8_ascii)
  have "RetrieveProduct (ctx_malformed\<lparr>state := AList.update ''p1'' (wire ?p') (state ctx_malformed)\<rparr>)
      ''p1'' = Inr ?p'"
    using RetrieveProduct_wire [OF GetState_after_put [OF GetState_no_fault [OF g], of "wire ?p'"]]
    by (simp add: v)
  with r m show ?thesis by simp
qed

section \<open>C6: modification refreshes the update date\<close>

text \<open>
  C6, as amended. Take an ID under which \<^verbatim>\<open>RetrieveProduct\<close> finds a product \<open>p\<close> that
  carries this ID (lemma \<open>run_keyed\<close>), and a call of \<^verbatim>\<open>ModifyProduct\<close> for it that
  succeeds, in a transaction whose time \<open>ts\<close> is rendered as valid UTF-8 (the text of an
  RFC 3339 time is ASCII). The product then retrieved under the ID has the rendered time
  of the transaction as its \<open>UpdatedDate\<close>, whatever the four arguments are. When all
  four are empty it is \<open>p\<close> with nothing but \<open>UpdatedDate\<close> changed: the call that changes
  no field still advances the date.
\<close>

theorem ModifyProduct_refreshes_UpdatedDate:
  assumes "RetrieveProduct c pid = Inr p" and "ProductID p = pid"
    and "tx_timestamp c = Inr ts" and "ValidString (rfc3339 c ts)"
    and "ModifyProduct c pid status owner description category = (None, c')"
  shows "\<exists>p'. RetrieveProduct c' pid = Inr p' \<and> UpdatedDate p' = rfc3339 c ts \<and>
           (status = [] \<and> owner = [] \<and> description = [] \<and> category = [] \<longrightarrow>
              p' = p\<lparr>UpdatedDate := rfc3339 c ts\<rparr>)"
proof -
  let ?q = "spec_merge p status owner description category (rfc3339 c ts)"
  have c': "c' = c\<lparr>state := AList.update pid (wire ?q) (state c)\<rparr>"
    by (rule ModifyProduct_keyed_result [OF assms(1,2,3,5)])
  have r: "RetrieveProduct c' pid = Inr (coerce_product ?q)"
    unfolding c' by (rule RetrieveProduct_after_save [OF ModifyProduct_keyed(3) [OF assms(1,2,3)]])
  have u: "UpdatedDate (coerce_product ?q) = rfc3339 c ts"
    using assms(4) by (simp add: coerce_product_def spec_merge_def ValidString_coerce)
  have "coerce_product ?q = p\<lparr>UpdatedDate := rfc3339 c ts\<rparr>"
    if "status = [] \<and> owner = [] \<and> description = [] \<and> category = []"
  proof -
    have "?q = p\<lparr>UpdatedDate := rfc3339 c ts\<rparr>" using that by (simp add: spec_merge_def)
    moreover have "valid_product (p\<lparr>UpdatedDate := rfc3339 c ts\<rparr>)"
      using RetrieveProduct_valid [OF assms(1)] assms(4) by (simp add: valid_product_def)
    ultimately show ?thesis by (simp add: coerce_product_valid)
  qed
  with r u show ?thesis by blast
qed

theorem ModifyProduct_refreshes_UpdatedDate_witness:
  "RetrieveProduct ctx_p1 ''p1'' =
     Inr \<lparr>ProductID = ''p1'', ProductName = ''Widget'', ProductStatus = ''Manufactured'',
          CurrentOwner = ''Acme'', CreatedDate = ''2024-06-01T12:00:01Z'',
          UpdatedDate = ''2024-06-01T12:00:01Z'', ProductCategory = ''cat'',
          ProductDescription = ''desc''\<rparr> \<and>
   tx_timestamp ctx_p1 = Inr (at_second 2) \<and>
   rfc3339 ctx_p1 (at_second 2) = ''2024-06-01T12:00:02Z'' \<and>
   ValidString ''2024-06-01T12:00:02Z'' \<and>
   fst (ModifyProduct ctx_p1 ''p1'' [] [] [] []) = None \<and>
   RetrieveProduct (snd (ModifyProduct ctx_p1 ''p1'' [] [] [] [])) ''p1'' =
     Inr \<lparr>ProductID = ''p1'', ProductName = ''Widget'', ProductStatus = ''Manufactured'',
          CurrentOwner = ''Acme'', CreatedDate = ''2024-06-01T12:00:01Z'',
          UpdatedDate = ''2024-06-01T12:00:02Z'', ProductCategory = ''cat'',
          ProductDescription = ''desc''\<rparr>"
proof -
  let ?w = "\<lparr>ProductID = ''p1'', ProductName = ''Widget'', ProductStatus = ''Manufactured'',
             CurrentOwner = ''Acme'', CreatedDate = ''2024-06-01T12:00:01Z'',
             UpdatedDate = ''2024-06-01T12:00:01Z'', ProductCategory = ''cat'',
             ProductDescription = ''desc''\<rparr>"
  have i: "ProductID ?w = ''p1''" by simp
  have v: "ValidString ''2024-06-01T12:00:02Z''" by (simp add: ValidString_ascii)
  then have v': "ValidString (rfc3339 ctx_p1 (at_second 2))" by (simp add: ctx_p1_facts(4))
  note ok = ModifyProduct_keyed_ok [OF ctx_p1_facts(1) i ctx_p1_facts(2,3),
      of "[]" "[]" "[]" "[]"]
  have f: "fst (ModifyProduct ctx_p1 ''p1'' [] [] [] []) = None" by (simp add: ok)
  have m: "ModifyProduct ctx_p1 ''p1'' [] [] [] []
      = (None, snd (ModifyProduct ctx_p1 ''p1'' [] [] [] []))"
    by (simp add: ok)
  from ModifyProduct_refreshes_UpdatedDate [OF ctx_p1_facts(1) i ctx_p1_facts(2) v' m]
  have "RetrieveProduct (snd (ModifyProduct ctx_p1 ''p1'' [] [] [] [])) ''p1''
      = Inr (?w\<lparr>UpdatedDate := rfc3339 ctx_p1 (at_second 2)\<rparr>)"
    by auto
  with f v ctx_p1_facts show ?thesis by simp
qed

text \<open>
  C6 as stated, for every successful call on a present record, fails: the modification
  of the product registered under the byte \<^verbatim>\<open>0xFF\<close> succeeds in the transaction of the
  third second, and the product under \<^verbatim>\<open>0xFF\<close> keeps the update date of the second.
\<close>

theorem ModifyProduct_refreshes_UpdatedDate_counterexample:
  "RetrieveProduct ctx_ff [CHR 0xFF] =
     Inr \<lparr>ProductID = [CHR 0xEF, CHR 0xBF, CHR 0xBD], ProductName = ''B'',
          ProductStatus = ''Manufactured'', CurrentOwner = ''Bob'',
          CreatedDate = ''2024-06-01T12:00:02Z'', UpdatedDate = ''2024-06-01T12:00:02Z'',
          ProductCategory = ''k'', ProductDescription = ''d''\<rparr> \<and>
   fetchTransactionTimestamp ctx_ff = Inr ''2024-06-01T12:00:03Z'' \<and>
   fst (ModifyProduct ctx_ff [CHR 0xFF] [] [] [] []) = None \<and>
   RetrieveProduct (snd (ModifyProduct ctx_ff [CHR 0xFF] [] [] [] [])) [CHR 0xFF] =
     Inr \<lparr>ProductID = [CHR 0xEF, CHR 0xBF, CHR 0xBD], ProductName = ''B'',
          ProductStatus = ''Manufactured'', CurrentOwner = ''Bob'',
          CreatedDate = ''2024-06-01T12:00:02Z'', UpdatedDate = ''2024-06-01T12:00:02Z'',
          ProductCategory = ''k'', ProductDescription = ''d''\<rparr> \<and>
   ''2024-06-01T12:00:02Z'' \<noteq> ''2024-06-01T12:00:03Z''"
  by (simp add: ctx_ff_facts)

section \<open>C7: the dates of a product over a run\<close>

text \<open>
  C7, as amended. Take a run from an empty ledger whose rendered transaction times are
  valid UTF-8 and non-decreasing for an order \<open>le\<close> on them that is reflexive and
  transitive. After every operation of the run (after every prefix \<open>pre\<close>): every stored
  value decodes to a product whose creation date is not after its update date; a
  registration that has just succeeded has stored, under its ID, a product whose creation
  date is the time of its transaction; and, provided every ID the run registers is valid
  UTF-8, every product stored is still stored at the end of the run, with the same
  creation date.
\<close>

theorem created_date_invariant:
  assumes "state c = []" and "reflp le" and "transp le"
    and "sorted_wrt le (rendered c ops)"
    and "list_all (\<lambda>(ts, op). ValidString (rfc3339 c ts)) ops"
    and "ops = pre @ post"
  shows "(\<forall>k v. map_of (state (run c pre)) k = Some v \<longrightarrow>
            decodes v \<and> le (CreatedDate (decode v)) (UpdatedDate (decode v))) \<and>
         (\<forall>pre' ts pid name owner description category.
            pre = pre' @ [(ts, Register pid name owner description category)] \<and>
            fst (exec ((run c pre')\<lparr>tx_timestamp := Inr ts\<rparr>)
                   (Register pid name owner description category)) = None \<longrightarrow>
            (\<exists>v. map_of (state (run c pre)) pid = Some v \<and>
                 CreatedDate (decode v) = rfc3339 c ts)) \<and>
         (list_all (\<lambda>(ts, op). registers_valid op) ops \<longrightarrow>
            (\<forall>k v. map_of (state (run c pre)) k = Some v \<longrightarrow>
               (\<exists>v'. map_of (state (run c ops)) k = Some v' \<and>
                     CreatedDate (decode v') = CreatedDate (decode v))))"
proof (intro conjI allI impI)
  have all: "\<forall>(ts, op) \<in> set ops. ValidString (rfc3339 c ts)"
    using assms(5) by (simp add: list_all_iff)
  have srt: "sorted_wrt le (rendered c pre)" "sorted_wrt le (rendered c post)"
    "\<forall>x \<in> set (rendered c pre). \<forall>y \<in> set (rendered c post). le x y"
    using assms(4) by (simp_all add: assms(6) rendered_def sorted_wrt_append)
  have first: "sorted_wrt le (hd (rendered c pre) # rendered c pre)" if "pre \<noteq> []"
    using srt(1) assms(2) that by (cases pre) (auto simp: rendered_def reflpD)
  have all_pre: "\<forall>(ts, op) \<in> set pre. ValidString (rfc3339 c ts)"
    using all assms(6) by auto
  {
    fix k v assume kv: "map_of (state (run c pre)) k = Some v"
    have ne: "pre \<noteq> []" using kv assms(1) by (cases pre) auto
    have "ledger_dates le (hd (rendered c pre)) c" using assms(1) by (simp add: ledger_dates_def)
    from run_dates [OF this assms(2,3) first [OF ne] all_pre] kv
    obtain p where p: "v = wire p" "ValidString (CreatedDate p)"
      "ValidString (UpdatedDate p)" "le (CreatedDate p) (UpdatedDate p)"
      unfolding ledger_dates_def by blast
    show "decodes v" by (simp add: p(1) decode_wire)
    show "le (CreatedDate (decode v)) (UpdatedDate (decode v))"
      using p(2,3,4) by (simp add: p(1) decode_wire coerce_product_def ValidString_coerce)
  }
  {
    fix k v
    assume rv: "list_all (\<lambda>(ts, op). registers_valid op) ops"
      and kv: "map_of (state (run c pre)) k = Some v"
    have all': "\<forall>(ts, op) \<in> set ops. ValidString (rfc3339 c ts) \<and> registers_valid op"
      using all rv by (auto simp: list_all_iff)
    have ne: "pre \<noteq> []" using kv assms(1) by (cases pre) auto
    let ?now = "hd (rendered c pre)"
    have "ledger_ok le ?now c" using assms(1) by (simp add: ledger_ok_def)
    moreover have "\<forall>(ts, op) \<in> set pre. ValidString (rfc3339 c ts) \<and> registers_valid op"
      using all' assms(6) by auto
    ultimately have "ledger_ok le (last (?now # rendered c pre)) (run c pre)"
      using run_ok [of le ?now c pre] assms(2,3) first [OF ne] by blast
    moreover have rne: "rendered c pre \<noteq> []" using ne by (simp add: rendered_def)
    ultimately have now: "ledger_ok le (last (rendered c pre)) (run c pre)" by simp
    have "last (rendered c pre) \<in> set (rendered c pre)"
      using rne by (rule last_in_set)
    then have "sorted_wrt le (last (rendered c pre) # rendered (run c pre) post)"
      using srt(2,3) by (simp add: rendered_run)
    moreover have "\<forall>(ts, op) \<in> set post. ValidString (rfc3339 (run c pre) ts) \<and> registers_valid op"
      using all' assms(6) by (auto simp: run_rfc3339)
    ultimately have "\<forall>k v. map_of (state (run c pre)) k = Some v \<longrightarrow>
        (\<exists>v'. map_of (state (run (run c pre) post)) k = Some v' \<and>
              CreatedDate (decode v') = CreatedDate (decode v))"
      using run_ok [OF now assms(2,3), of post] by blast
    with kv show "\<exists>v'. map_of (state (run c ops)) k = Some v' \<and>
                  CreatedDate (decode v') = CreatedDate (decode v)"
      by (simp add: assms(6) run_append)
  }
  fix pre' ts pid name owner description category
  assume a: "pre = pre' @ [(ts, Register pid name owner description category)] \<and>
            fst (exec ((run c pre')\<lparr>tx_timestamp := Inr ts\<rparr>)
                   (Register pid name owner description category)) = None"
  let ?c0 = "(run c pre')\<lparr>tx_timestamp := Inr ts\<rparr>"
  let ?t = "rfc3339 c ts"
  obtain e c' where r: "RegisterProduct ?c0 pid name owner description category = (e, c')"
    by (cases "RegisterProduct ?c0 pid name owner description category")
  with a have e: "e = None" by simp
  have f: "fetchTransactionTimestamp ?c0 = Inr ?t"
    by (simp add: fetchTransactionTimestamp_def GetTxTimestamp_def run_rfc3339)
  from RegisterProduct_result [OF r] e f
  have c': "c' = ?c0\<lparr>state := AList.update pid
                  (wire \<lparr>ProductID = pid, ProductName = name, ProductStatus = ''Manufactured'',
                         CurrentOwner = owner, CreatedDate = ?t, UpdatedDate = ?t,
                         ProductCategory = category, ProductDescription = description\<rparr>)
                  (state ?c0)\<rparr>"
    by auto
  have rp: "run c pre = c'"
    using a r by (simp add: run_append)
  have vt: "ValidString ?t"
    using all a assms(6) by auto
  show "\<exists>v. map_of (state (run c pre)) pid = Some v \<and> CreatedDate (decode v) = rfc3339 c ts"
    unfolding rp c' using vt
    by (simp add: update_conv' decode_wire coerce_product_def ValidString_coerce)
qed

theorem created_date_invariant_witness:
  "state ctx_clock = [] \<and>
   reflp ((\<le>) :: string \<Rightarrow> string \<Rightarrow> bool) \<and> transp ((\<le>) :: string \<Rightarrow> string \<Rightarrow> bool) \<and>
   sorted_wrt (\<le>) (rendered ctx_clock ops_ok) \<and>
   list_all (\<lambda>(ts, op). ValidString (rfc3339 ctx_clock ts)) ops_ok \<and>
   list_all (\<lambda>(ts, op). registers_valid op) ops_ok \<and>
   (\<exists>v. map_of (state (run ctx_clock ops_ok)) ''p1'' = Some v \<and> decodes v \<and>
        CreatedDate (decode v) = ''2024-06-01T12:00:01Z'' \<and>
        CreatedDate (decode v) \<le> UpdatedDate (decode v))"
proof -
  let ?op1 = "(at_second 1, Register ''p1'' ''Widget'' ''Acme'' ''desc'' ''cat'')"
  let ?rest = "[(at_second 2, Modify ''p1'' ''Shipped'' [] [] []), (at_second 3, Transfer ''p1'' ''Bob'')]"
  have h1: "state ctx_clock = []" by (simp add: ctx_clock_def ctx0_def)
  have h4: "sorted_wrt (\<le>) (rendered ctx_clock ops_ok)"
    by (simp add: rendered_def ops_ok_def ctx_clock_def clock_def at_second_def)
  have h5: "list_all (\<lambda>(ts, op). ValidString (rfc3339 ctx_clock ts)) ops_ok"
    by (simp add: ops_ok_def ctx_clock_def clock_def at_second_def ValidString_ascii)
  have h6: "list_all (\<lambda>(ts, op). registers_valid op) ops_ok"
    by (simp add: ops_ok_def registers_valid_def ValidString_ascii)
  have s1: "ops_ok = [?op1] @ ?rest" by (simp add: ops_ok_def)
  have s2: "ops_ok = ops_ok @ []" by simp
  have reg: "fst (exec ((run ctx_clock [])\<lparr>tx_timestamp := Inr (at_second 1)\<rparr>)
      (Register ''p1'' ''Widget'' ''Acme'' ''desc'' ''cat'')) = None"
    by (simp add: RegisterProduct_def CheckProductExistence_def GetState_def ctx_clock_def ctx0_def
        fetchTransactionTimestamp_def GetTxTimestamp_def saveProduct_def PutState_def Marshal_wire)
  note A = created_date_invariant [OF h1 string_le_refl_trans h4 h5 s1]
  note B = created_date_invariant [OF h1 string_le_refl_trans h4 h5 s2]
  from A reg obtain v where v: "map_of (state (run ctx_clock [?op1])) ''p1'' = Some v"
    "CreatedDate (decode v) = rfc3339 ctx_clock (at_second 1)"
    by (metis append_Nil)
  from A h6 v(1) obtain v' where v': "map_of (state (run ctx_clock ops_ok)) ''p1'' = Some v'"
    "CreatedDate (decode v') = CreatedDate (decode v)"
    by blast
  from B v'(1) have "decodes v'" "CreatedDate (decode v') \<le> UpdatedDate (decode v')"
    by blast+
  moreover have "rfc3339 ctx_clock (at_second 1) = ''2024-06-01T12:00:01Z''"
    by (simp add: ctx_clock_def clock_def at_second_def)
  ultimately show ?thesis
    using h1 h4 h5 h6 string_le_refl_trans v' v(2) by auto
qed

text \<open>
  C7 as stated, for every sequence, fails. \<^verbatim>\<open>saveProduct\<close> writes under the ID of the
  record, and \<^verbatim>\<open>ModifyProduct\<close> takes that ID from the decoded value, not from its
  argument. A product registered under the byte \<^verbatim>\<open>0xFF\<close> is stored with the ID U+FFFD in
  its value; modifying it writes under the key U+FFFD and replaces the product
  registered there, whose creation date thereby changes from the first second to the
  second.
\<close>

theorem created_date_counterexample:
  "sorted_wrt (\<le>) (rendered ctx_clock ops_bad) \<and>
   RetrieveProduct (run ctx_clock (take 1 ops_bad)) [CHR 0xEF, CHR 0xBF, CHR 0xBD]
     = Inr \<lparr>ProductID = [CHR 0xEF, CHR 0xBF, CHR 0xBD], ProductName = ''A'',
            ProductStatus = ''Manufactured'', CurrentOwner = ''Acme'',
            CreatedDate = ''2024-06-01T12:00:01Z'', UpdatedDate = ''2024-06-01T12:00:01Z'',
            ProductCategory = ''k'', ProductDescription = ''d''\<rparr> \<and>
   RetrieveProduct (run ctx_clock ops_bad) [CHR 0xEF, CHR 0xBF, CHR 0xBD]
     = Inr \<lparr>ProductID = [CHR 0xEF, CHR 0xBF, CHR 0xBD], ProductName = ''B'',
            ProductStatus = ''Shipped'', CurrentOwner = ''Bob'',
            CreatedDate = ''2024-06-01T12:00:02Z'', UpdatedDate = ''2024-06-01T12:00:03Z'',
            ProductCategory = ''k'', ProductDescription = ''d''\<rparr>"
proof -
  let ?k1 = "[CHR 0xEF, CHR 0xBF, CHR 0xBD]"
  let ?k2 = "[CHR 0xFF]"
  let ?r1 = "\<lparr>ProductID = ?k1, ProductName = ''A'', ProductStatus = ''Manufactured'',
              CurrentOwner = ''Acme'', CreatedDate = ''2024-06-01T12:00:01Z'',
              UpdatedDate = ''2024-06-01T12:00:01Z'',
              ProductCategory = ''k'', ProductDescription = ''d''\<rparr>"
  let ?r2 = "\<lparr>ProductID = ?k2, ProductName = ''B'', ProductStatus = ''Manufactured'',
              CurrentOwner = ''Bob'', CreatedDate = ''2024-06-01T12:00:02Z'',
              UpdatedDate = ''2024-06-01T12:00:02Z'',
              ProductCategory = ''k'', ProductDescription = ''d''\<rparr>"
  let ?r3 = "\<lparr>ProductID = ?k1, ProductName = ''B'', ProductStatus = ''Shipped'',
              CurrentOwner = ''Bob'', CreatedDate = ''2024-06-01T12:00:02Z'',
              UpdatedDate = ''2024-06-01T12:00:03Z'',
              ProductCategory = ''k'', ProductDescription = ''d''\<rparr>"
  let ?c1 = "ctx_clock\<lparr>tx_timestamp := Inr (at_second 1), state := [(?k1, wire ?r1)]\<rparr>"
  let ?c2 = "ctx_clock\<lparr>tx_timestamp := Inr (at_second 2),
      state := [(?k1, wire ?r1), (?k2, wire ?r2)]\<rparr>"
  let ?c3 = "ctx_clock\<lparr>tx_timestamp := Inr (at_second 3),
      state := [(?k1, wire ?r3), (?k2, wire ?r2)]\<rparr>"
  have s: "sorted_wrt (\<le>) (rendered ctx_clock ops_bad)"
    by (simp add: rendered_def ops_bad_def ctx_clock_def clock_def at_second_def)
  have e1: "snd (exec (ctx_clock\<lparr>tx_timestamp := Inr (at_second 1)\<rparr>)
      (Register ?k1 ''A'' ''Acme'' ''d'' ''k'')) = ?c1"
    by (simp add: RegisterProduct_eval [where ts = "at_second 1"] ctx_clock_def ctx0_def clock_def
        at_second_def)
  have e2: "snd (exec (?c1\<lparr>tx_timestamp := Inr (at_second 2)\<rparr>)
      (Register ?k2 ''B'' ''Bob'' ''d'' ''k'')) = ?c2"
    by (simp add: RegisterProduct_eval [where ts = "at_second 2"] ctx_clock_def ctx0_def clock_def
        at_second_def)
  have c3: "coerce_product ?r2 = ?r2\<lparr>ProductID := ?k1\<rparr>"
    by (simp add: coerce_product_def coerce_FFFD coerce_utf8_ascii)
  have e3: "snd (exec (?c2\<lparr>tx_timestamp := Inr (at_second 3)\<rparr>)
      (Modify ?k2 ''Shipped'' [] [] [])) = ?c3"
    by (simp add: ModifyProduct_eval [where ts = "at_second 3" and p = ?r2] ctx_clock_def ctx0_def
        clock_def at_second_def coerce_FFFD c3 spec_merge_def)
  have t1: "take 1 ops_bad = [(at_second 1, Register ?k1 ''A'' ''Acme'' ''d'' ''k'')]"
    by (simp add: ops_bad_def)
  have r1: "run ctx_clock (take 1 ops_bad) = ?c1"
    by (simp only: t1 run.simps e1)
  have r3: "run ctx_clock ops_bad = ?c3"
    by (simp only: ops_bad_def run.simps e1 e2 e3)
  have v1: "coerce_product ?r1 = ?r1" and v3: "coerce_product ?r3 = ?r3"
    by (simp_all add: coerce_product_def coerce_FFFD coerce_utf8_ascii)
  have g1: "GetState ?c1 ?k1 = Inr (Some (wire ?r1))"
    and g3: "GetState ?c3 ?k1 = Inr (Some (wire ?r3))"
    by (simp_all add: GetState_def ctx_clock_def ctx0_def)
  from RetrieveProduct_wire [OF g1] RetrieveProduct_wire [OF g3] s show ?thesis
    unfolding r1 r3 v1 v3 by simp
qed

section \<open>C8: listing in key order\<close>



section \<open>C9: the round trip through the wire format\<close>

text \<open>
  C9, as amended. The bytes written for a product are a flat JSON object of eight string
  members named \<^verbatim>\<open>product_id\<close>, \<^verbatim>\<open>product_name\<close>, \<^verbatim>\<open>product_status\<close>,
  \<^verbatim>\<open>current_owner\<close>, \<^verbatim>\<open>created_date\<close>, \<^verbatim>\<open>updated_date\<close>, \<^verbatim>\<open>product_category\<close> and
  \<^verbatim>\<open>product_description\<close>, in this order, and decoding them gives, without error, the
  product with every field coerced to valid UTF-8 (each byte that starts no valid
  encoding replaced by U+FFFD). For a product whose eight fields are valid UTF-8 the
  result is the product itself, field for field.
\<close>

theorem Marshal_Unmarshal_coerced:
  "Marshal p = Inr (wire p) \<and>
   lex (wire p) = Some (wire_format (coerce_product p)) \<and>
   Unmarshal (wire p) zero_ProductEntity = (coerce_product p, None) \<and>
   (valid_product p \<longrightarrow> coerce_product p = p)"
proof -
  have "lex (wire p) = Some (wire_format (coerce_product p))"
    using lex_Marshal [OF Marshal_wire, of p] by (simp add: wire_format_def coerce_product_def)
  then show ?thesis
    using Unmarshal_Marshal [OF Marshal_wire, of p]
    by (simp add: Marshal_wire coerce_product_valid)
qed

theorem Marshal_Unmarshal_coerced_witness:
  "valid_product example_product \<and>
   Unmarshal (wire example_product) zero_ProductEntity = (example_product, None)"
proof -
  have v: "valid_product example_product"
    by (simp add: valid_product_def example_product_def ValidString_ascii)
  with Marshal_Unmarshal_coerced [of example_product] show ?thesis by simp
qed

text \<open>
  C9 as stated, for every product, fails: a name that is the single byte \<^verbatim>\<open>0xFF\<close> is
  written as the escape \<^verbatim>\<open>\ufffd\<close> and read back as the three bytes of U+FFFD.
\<close>

theorem Marshal_Unmarshal_counterexample:
  "Unmarshal
     (wire \<lparr>ProductID = ''p1'', ProductName = [CHR 0xFF], ProductStatus = [], CurrentOwner = [],
            CreatedDate = [], UpdatedDate = [], ProductCategory = [], ProductDescription = []\<rparr>)
     zero_ProductEntity
   = (\<lparr>ProductID = ''p1'', ProductName = [CHR 0xEF, CHR 0xBF, CHR 0xBD], ProductStatus = [],
       CurrentOwner = [], CreatedDate = [], UpdatedDate = [], ProductCategory = [],
       ProductDescription = []\<rparr>, None) \<and>
   [CHR 0xEF, CHR 0xBF, CHR 0xBD] \<noteq> [CHR 0xFF]"
proof -
  have c: "coerce_utf8 [CHR 0xFF] = [CHR 0xEF, CHR 0xBF, CHR 0xBD]"
    by (simp add: coerce_utf8.simps DecodeRune.simps EncodeRune_RuneError)
  have a: "coerce_utf8 ''p1'' = ''p1''"
    by (simp add: coerce_utf8_ascii)
  have "Unmarshal
     (wire \<lparr>ProductID = ''p1'', ProductName = [CHR 0xFF], ProductStatus = [], CurrentOwner = [],
            CreatedDate = [], UpdatedDate = [], ProductCategory = [], ProductDescription = []\<rparr>)
     zero_ProductEntity
   = (coerce_product \<lparr>ProductID = ''p1'', ProductName = [CHR 0xFF], ProductStatus = [], CurrentOwner = [],
            CreatedDate = [], UpdatedDate = [], ProductCategory = [], ProductDescription = []\<rparr>, None)"
    by (rule Unmarshal_Marshal [OF Marshal_wire])
  then show ?thesis
    by (simp add: coerce_product_def c a coerce_utf8.simps(1))
qed

section \<open>C10: registration validates nothing but the absence of the key\<close>

text \<open>
  C10. For an ID that \<^verbatim>\<open>GetState\<close> reports absent, in a transaction whose time \<open>ts\<close> is
  rendered as valid UTF-8 and in a context whose \<^verbatim>\<open>PutState\<close> accepts the key,
  \<^verbatim>\<open>RegisterProduct\<close> succeeds for every choice of its five strings, the empty string
  included, and \<^verbatim>\<open>RetrieveProduct\<close> of the ID then returns a product whose status is
  \<^verbatim>\<open>Manufactured\<close>, whose two dates are the rendered time of the transaction, and whose
  five other fields are the five strings as the wire format carries them (coerced to
  valid UTF-8, so the strings themselves when they are valid UTF-8). The instance that
  follows registers five empty strings and retrieves the product under the empty key.
  The contract itself refuses no key; whether \<^verbatim>\<open>PutState\<close> accepts one is the matter of
  the stub (the store of the specification accepts every key, the stub of a Fabric peer
  refuses the empty one).
\<close>

theorem RegisterProduct_no_validation:
  assumes "GetState c pid = Inr None"
    and "tx_timestamp c = Inr ts" and "ValidString (rfc3339 c ts)"
    and "put_fault c pid = None"
  shows "\<exists>c'. RegisterProduct c pid name owner description category = (None, c') \<and>
           RetrieveProduct c' pid =
             Inr \<lparr>ProductID = coerce_utf8 pid, ProductName = coerce_utf8 name,
                  ProductStatus = ''Manufactured'', CurrentOwner = coerce_utf8 owner,
                  CreatedDate = rfc3339 c ts, UpdatedDate = rfc3339 c ts,
                  ProductCategory = coerce_utf8 category,
                  ProductDescription = coerce_utf8 description\<rparr>"
proof -
  let ?r = "\<lparr>ProductID = pid, ProductName = name, ProductStatus = ''Manufactured'',
             CurrentOwner = owner, CreatedDate = rfc3339 c ts, UpdatedDate = rfc3339 c ts,
             ProductCategory = category, ProductDescription = description\<rparr>"
  let ?c' = "c\<lparr>state := AList.update pid (wire ?r) (state c)\<rparr>"
  have "RegisterProduct c pid name owner description category = saveProduct c ?r"
    using assms(1) fetch_tx [OF assms(2)]
    by (simp add: RegisterProduct_def CheckProductExistence_def)
  moreover have "saveProduct c ?r = (None, ?c')"
    using saveProduct_ok [of c ?r] assms(4) by simp
  moreover have "RetrieveProduct ?c' pid = Inr (coerce_product ?r)"
    by (rule RetrieveProduct_after_save [OF GetState_no_fault [OF assms(1)]])
  moreover have "coerce_utf8 ''Manufactured'' = ''Manufactured''"
    by (simp add: coerce_utf8_ascii)
  ultimately show ?thesis
    using assms(3) by (simp add: coerce_product_def ValidString_coerce)
qed

theorem RegisterProduct_no_validation_witness:
  "GetState (ctx_second 2) [] = Inr None \<and>
   tx_timestamp (ctx_second 2) = Inr (at_second 2) \<and>
   rfc3339 (ctx_second 2) (at_second 2) = ''2024-06-01T12:00:02Z'' \<and>
   ValidString ''2024-06-01T12:00:02Z'' \<and>
   put_fault (ctx_second 2) [] = None \<and>
   fst (RegisterProduct (ctx_second 2) [] [] [] [] []) = None \<and>
   RetrieveProduct (snd (RegisterProduct (ctx_second 2) [] [] [] [] [])) []
     = Inr \<lparr>ProductID = [], ProductName = [], ProductStatus = ''Manufactured'',
            CurrentOwner = [], CreatedDate = ''2024-06-01T12:00:02Z'',
            UpdatedDate = ''2024-06-01T12:00:02Z'', ProductCategory = [],
            ProductDescription = []\<rparr>"
proof -
  have g: "GetState (ctx_second 2) [] = Inr None"
    by (simp add: GetState_def ctx_second_def ctx_clock_def ctx0_def)
  have tx: "tx_timestamp (ctx_second 2) = Inr (at_second 2)" by (simp add: ctx_second_def)
  have t: "rfc3339 (ctx_second 2) (at_second 2) = ''2024-06-01T12:00:02Z''"
    by (simp add: ctx_second_def ctx_clock_def clock_def at_second_def)
  have v: "ValidString ''2024-06-01T12:00:02Z''" by (simp add: ValidString_ascii)
  then have v': "ValidString (rfc3339 (ctx_second 2) (at_second 2))" by (simp add: t)
  have p: "put_fault (ctx_second 2) [] = None"
    by (simp add: ctx_second_def ctx_clock_def ctx0_def)
  from RegisterProduct_no_validation [OF g tx v' p, of "[]" "[]" "[]" "[]"]
  show ?thesis using g tx t v p by (auto simp: coerce_utf8.simps(1))
qed

end
